theory Spec2Isabelle
  imports Complex_Main
begin

section \<open>JavaScript values of the mesh loader\<close>

text \<open>
  The arrays of \<open>OBJLoader\<close> hold JavaScript numbers, and a read past the end of
  an array yields \<open>undefined\<close>. A value is therefore \<open>undefined\<close>, \<open>NaN\<close>, one of
  the two infinities or a finite number. A finite number is modelled by the real
  number it denotes, and the two zeros are identified. The rounding and the
  overflow of binary64 arithmetic are not modelled in the loader: a property
  below that depends on the exact value of a result is stated for numbers on which
  the operations of the loader are exact in binary64 (references up to \<open>2 ^ 53\<close>,
  coordinates that are multiples of one power of two with a numerator of at most
  50 bits), and the other properties are about lengths, \<open>NaN\<close> and the order of the
  operations.
\<close>

datatype jsval = Undefined | NaN | PInf | NInf | Fin real

text \<open>\<open>ToNumber\<close>: \<open>undefined\<close> converts to \<open>NaN\<close>.\<close>

fun to_number :: "jsval \<Rightarrow> jsval" where
  "to_number Undefined = NaN"
| "to_number v = v"

fun js_neg :: "jsval \<Rightarrow> jsval" where
  "js_neg (Fin a) = Fin (- a)"
| "js_neg PInf = NInf"
| "js_neg NInf = PInf"
| "js_neg v = NaN"

text \<open>The operator \<open>+\<close> on two numbers (operands converted by \<open>ToNumber\<close>).\<close>

fun num_add :: "jsval \<Rightarrow> jsval \<Rightarrow> jsval" where
  "num_add (Fin a) (Fin b) = Fin (a + b)"
| "num_add PInf NInf = NaN"
| "num_add NInf PInf = NaN"
| "num_add PInf PInf = PInf"
| "num_add PInf (Fin b) = PInf"
| "num_add (Fin a) PInf = PInf"
| "num_add NInf NInf = NInf"
| "num_add NInf (Fin b) = NInf"
| "num_add (Fin a) NInf = NInf"
| "num_add a b = NaN"

definition js_add :: "jsval \<Rightarrow> jsval \<Rightarrow> jsval" where
  "js_add a b = num_add (to_number a) (to_number b)"

definition js_sub :: "jsval \<Rightarrow> jsval \<Rightarrow> jsval" where
  "js_sub a b = num_add (to_number a) (js_neg (to_number b))"

text \<open>
  The operator \<open>/\<close>. A finite number divided by zero is an infinity of the sign of
  the dividend, and \<open>0 / 0\<close> is \<open>NaN\<close>; the zero divisor is taken as \<open>+0\<close>.
\<close>

fun num_div :: "jsval \<Rightarrow> jsval \<Rightarrow> jsval" where
  "num_div (Fin a) (Fin b) =
     (if b = 0 then (if a = 0 then NaN else if 0 < a then PInf else NInf)
      else Fin (a / b))"
| "num_div (Fin a) PInf = Fin 0"
| "num_div (Fin a) NInf = Fin 0"
| "num_div PInf (Fin b) = (if 0 \<le> b then PInf else NInf)"
| "num_div NInf (Fin b) = (if 0 \<le> b then NInf else PInf)"
| "num_div a b = NaN"

definition js_div :: "jsval \<Rightarrow> jsval \<Rightarrow> jsval" where
  "js_div a b = num_div (to_number a) (to_number b)"

text \<open>\<open>Math.min\<close> and \<open>Math.max\<close>: \<open>NaN\<close> as soon as one argument is \<open>NaN\<close>.\<close>

fun num_le :: "jsval \<Rightarrow> jsval \<Rightarrow> bool" where
  "num_le (Fin a) (Fin b) = (a \<le> b)"
| "num_le NInf b = True"
| "num_le a PInf = True"
| "num_le a b = False"

definition min2 :: "jsval \<Rightarrow> jsval \<Rightarrow> jsval" where
  "min2 a b =
     (let x = to_number a; y = to_number b
      in if x = NaN \<or> y = NaN then NaN else if num_le x y then x else y)"

definition max2 :: "jsval \<Rightarrow> jsval \<Rightarrow> jsval" where
  "max2 a b =
     (let x = to_number a; y = to_number b
      in if x = NaN \<or> y = NaN then NaN else if num_le x y then y else x)"

definition Math_min :: "jsval list \<Rightarrow> jsval" where
  "Math_min args = foldl min2 PInf args"

definition Math_max :: "jsval list \<Rightarrow> jsval" where
  "Math_max args = foldl max2 NInf args"

text \<open>An array read \<open>a[k]\<close>: \<open>undefined\<close> past the end.\<close>

definition rd :: "jsval list \<Rightarrow> nat \<Rightarrow> jsval" where
  "rd a k = (if k < length a then a ! k else Undefined)"

text \<open>An array write \<open>a[k] = v\<close>: past the end the array grows, the holes reading \<open>undefined\<close>.\<close>

definition wr :: "jsval list \<Rightarrow> nat \<Rightarrow> jsval \<Rightarrow> jsval list" where
  "wr a k v =
     (if k < length a then a[k := v]
      else a @ replicate (k - length a) Undefined @ [v])"

section \<open>Strings\<close>

text \<open>
  A string is the list of its code units; the model covers code units below 256.
  \<open>is_space\<close> is the white space of \<open>trim\<close>, of the regular expression \<open>\s\<close> and
  of \<open>parseInt\<close>/\<open>parseFloat\<close> in that range: tab, line feed, vertical tab, form
  feed, carriage return, space and no-break space.
\<close>

definition is_space :: "char \<Rightarrow> bool" where
  "is_space c \<longleftrightarrow> (of_char c :: nat) \<in> {9, 10, 11, 12, 13, 32, 160}"

definition trim :: "string \<Rightarrow> string" where
  "trim s = rev (dropWhile is_space (rev (dropWhile is_space s)))"

definition startsWith :: "string \<Rightarrow> string \<Rightarrow> bool" where
  "startsWith s p \<longleftrightarrow> take (length p) s = p"

text \<open>\<open>s.split(sep)\<close> for a separator of one character.\<close>

function split_on :: "char \<Rightarrow> string \<Rightarrow> string list" where
  "split_on sep s =
     (case dropWhile (\<lambda>c. c \<noteq> sep) s of
        [] \<Rightarrow> [s]
      | _ # rest \<Rightarrow> takeWhile (\<lambda>c. c \<noteq> sep) s # split_on sep rest)"
  by pat_completeness auto
termination
proof (relation "measure (\<lambda>(sep, s). length s)")
  fix sep :: char and s :: string and x21 x22
  assume "dropWhile (\<lambda>c. c \<noteq> sep) s = x21 # x22"
  then have "length (x21 # x22) \<le> length s"
    by (metis length_dropWhile_le)
  then show "((sep, x22), (sep, s)) \<in> measure (\<lambda>(sep, s). length s)"
    by simp
qed simp

text \<open>\<open>s.split(/\s+/)\<close>: the separators are the maximal runs of white space.\<close>

function split_ws :: "string \<Rightarrow> string list" where
  "split_ws s =
     (case dropWhile (\<lambda>c. \<not> is_space c) s of
        [] \<Rightarrow> [s]
      | _ # rest \<Rightarrow> takeWhile (\<lambda>c. \<not> is_space c) s # split_ws (dropWhile is_space rest))"
  by pat_completeness auto
termination
proof (relation "measure length")
  fix s :: string and x21 x22
  assume "dropWhile (\<lambda>c. \<not> is_space c) s = x21 # x22"
  then have "length (x21 # x22) \<le> length s"
    by (metis length_dropWhile_le)
  moreover have "length (dropWhile is_space x22) \<le> length x22"
    by (rule length_dropWhile_le)
  ultimately show "(dropWhile is_space x22, s) \<in> measure length"
    by simp
qed simp

declare split_on.simps [simp del] split_ws.simps [simp del]

section \<open>parseInt and parseFloat\<close>

definition is_digit :: "char \<Rightarrow> bool" where
  "is_digit c \<longleftrightarrow> 48 \<le> (of_char c :: nat) \<and> (of_char c :: nat) \<le> 57"

text \<open>The value of a character as a digit of radix 16, if it is one.\<close>

definition hex_val :: "char \<Rightarrow> nat option" where
  "hex_val c =
     (let n = (of_char c :: nat)
      in if 48 \<le> n \<and> n \<le> 57 then Some (n - 48)
         else if 97 \<le> n \<and> n \<le> 102 then Some (n - 87)
         else if 65 \<le> n \<and> n \<le> 70 then Some (n - 55)
         else None)"

definition is_radix_digit :: "nat \<Rightarrow> char \<Rightarrow> bool" where
  "is_radix_digit R c \<longleftrightarrow> (case hex_val c of None \<Rightarrow> False | Some d \<Rightarrow> d < R)"

definition digits_value :: "nat \<Rightarrow> string \<Rightarrow> nat" where
  "digits_value R z = foldl (\<lambda>acc c. acc * R + (case hex_val c of None \<Rightarrow> 0 | Some d \<Rightarrow> d)) 0 z"

text \<open>
  \<open>parseInt(string)\<close> with no radix: leading white space is skipped, a sign is
  read, a prefix \<open>0x\<close>/\<open>0X\<close> selects radix 16, and the longest run of digits is
  the value; \<open>NaN\<close> when there is no digit.
\<close>

definition parseInt :: "string \<Rightarrow> jsval" where
  "parseInt str =
     (let s = dropWhile is_space str;
          neg = (take 1 s = ''-'');
          s1 = (if take 1 s = ''+'' \<or> take 1 s = ''-'' then drop 1 s else s);
          hex = (take 2 s1 = ''0x'' \<or> take 2 s1 = ''0X'');
          R = (if hex then 16 else 10);
          s2 = (if hex then drop 2 s1 else s1);
          z = takeWhile (is_radix_digit R) s2
      in if z = [] then NaN
         else Fin (if neg then - real (digits_value R z) else real (digits_value R z)))"

text \<open>
  The exponent part of a decimal literal: \<open>e\<close> or \<open>E\<close>, an optional sign and at
  least one digit; otherwise the literal ends before it and the exponent is 0.
\<close>

definition exponent_part :: "string \<Rightarrow> int" where
  "exponent_part r =
     (if take 1 r = ''e'' \<or> take 1 r = ''E'' then
        (let r1 = drop 1 r;
             eneg = (take 1 r1 = ''-'');
             r2 = (if take 1 r1 = ''+'' \<or> take 1 r1 = ''-'' then drop 1 r1 else r1);
             ds = takeWhile is_digit r2
         in if ds = [] then 0
            else if eneg then - int (digits_value 10 ds) else int (digits_value 10 ds))
      else 0)"

definition pow10 :: "int \<Rightarrow> real" where
  "pow10 e = (if 0 \<le> e then 10 ^ nat e else 1 / 10 ^ nat (- e))"

text \<open>
  \<open>parseFloat(string)\<close>: leading white space is skipped and the longest prefix
  that is a decimal literal (sign, \<open>Infinity\<close> or digits with an optional
  fraction and exponent) is the value; \<open>NaN\<close> when there is none.
\<close>

definition parseFloat :: "string \<Rightarrow> jsval" where
  "parseFloat str =
     (let s = dropWhile is_space str;
          neg = (take 1 s = ''-'');
          u = (if take 1 s = ''+'' \<or> take 1 s = ''-'' then drop 1 s else s)
      in if startsWith u ''Infinity'' then (if neg then NInf else PInf)
         else
           (let ip = takeWhile is_digit u;
                r1 = dropWhile is_digit u;
                dot = (take 1 r1 = ''.'');
                fp = (if dot then takeWhile is_digit (drop 1 r1) else []);
                r2 = (if dot then dropWhile is_digit (drop 1 r1) else r1)
            in if ip = [] \<and> fp = [] then NaN
               else
                 (let m = real (digits_value 10 (ip @ fp)) * pow10 (exponent_part r2 - int (length fp))
                  in Fin (if neg then - m else m))))"

text \<open>An argument that is \<open>undefined\<close> is first converted to the string \<open>undefined\<close>.\<close>

definition to_string :: "string option \<Rightarrow> string" where
  "to_string a = (case a of None \<Rightarrow> ''undefined'' | Some s \<Rightarrow> s)"

definition elem :: "string list \<Rightarrow> nat \<Rightarrow> string option" where
  "elem a k = (if k < length a then Some (a ! k) else None)"

section \<open>OBJLoader\<close>

definition parseVertex :: "string \<Rightarrow> jsval list" where
  "parseVertex vertex_string =
     (let parts = split_ws (trim vertex_string)
      in [parseFloat (to_string (elem parts 1)),
          parseFloat (to_string (elem parts 2)),
          parseFloat (to_string (elem parts 3))])"

definition triangulateFace :: "jsval list \<Rightarrow> jsval list" where
  "triangulateFace face =
     [rd face 0, rd face 1, rd face 2,
      rd face 0, rd face 2, rd face 3]"

text \<open>The loop of \<open>parseFace\<close> over \<open>parts[1]\<close>, \<open>parts[2]\<close>, ...\<close>

function parseFace_loop :: "string list \<Rightarrow> nat \<Rightarrow> jsval list \<Rightarrow> jsval list" where
  "parseFace_loop parts i indices =
     (if i < length parts then
        (let token = split_on CHR ''/'' (parts ! i)
         in parseFace_loop parts (i + 1)
              (indices @ [js_sub (parseInt (to_string (elem token 0))) (Fin 1)]))
      else indices)"
  by pat_completeness auto
termination
  by (relation "measure (\<lambda>(parts, i, indices). length parts - i)") auto

declare parseFace_loop.simps [simp del]

definition parseFace :: "string \<Rightarrow> jsval list" where
  "parseFace face_string =
     (let parts = split_ws (trim face_string);
          indices = parseFace_loop parts 1 []
      in if length indices = 4 then triangulateFace indices else indices)"

text \<open>The parsing loop of \<open>load\<close>: one line, trimmed, is a vertex record, a face record or ignored.\<close>

definition load_line :: "jsval list \<times> jsval list \<Rightarrow> string \<Rightarrow> jsval list \<times> jsval list" where
  "load_line st l =
     (let line = trim l
      in if startsWith line ''v '' then (fst st @ parseVertex line, snd st)
         else if startsWith line ''f '' then (fst st, snd st @ parseFace line)
         else st)"

definition parse_lines :: "string \<Rightarrow> jsval list \<times> jsval list" where
  "parse_lines contents = foldl load_line ([], []) (split_on (CHR 0x0A) contents)"

text \<open>The inner loop \<open>for (let j = 0; j < 3; j++)\<close> of the search for the bounds.\<close>

function minmax_inner ::
  "jsval list \<Rightarrow> nat \<Rightarrow> nat \<Rightarrow> jsval list \<times> jsval list \<Rightarrow> jsval list \<times> jsval list" where
  "minmax_inner vertices i j mm =
     (if j < 3 then
        minmax_inner vertices i (j + 1)
          (wr (fst mm) j (Math_min [rd (fst mm) j, rd vertices (i + j)]),
           wr (snd mm) j (Math_max [rd (snd mm) j, rd vertices (i + j)]))
      else mm)"
  by pat_completeness auto
termination
  by (relation "measure (\<lambda>(vertices, i, j, mm). 3 - j)") auto

text \<open>The outer loop \<open>for (let i = 0; i < vertices.length; i += 3)\<close>.\<close>

function minmax_loop ::
  "jsval list \<Rightarrow> nat \<Rightarrow> jsval list \<times> jsval list \<Rightarrow> jsval list \<times> jsval list" where
  "minmax_loop vertices i mm =
     (if i < length vertices then minmax_loop vertices (i + 3) (minmax_inner vertices i 0 mm)
      else mm)"
  by pat_completeness auto
termination
  by (relation "measure (\<lambda>(vertices, i, mm). length vertices - i)") auto

text \<open>One coordinate of the normalization: \<open>(v - c) / (range / 2)\<close>.\<close>

definition scaled :: "jsval \<Rightarrow> jsval \<Rightarrow> jsval \<Rightarrow> jsval" where
  "scaled v c range' = js_div (js_sub v c) (js_div range' (Fin 2))"

text \<open>
  The loop that applies the normalization, writing into \<open>vertices\<close> itself; its
  condition reads the length of the array as the writes have left it.
\<close>

function normalize_loop :: "jsval list \<Rightarrow> jsval \<Rightarrow> jsval list \<Rightarrow> nat \<Rightarrow> jsval list" where
  "normalize_loop center range' vertices i =
     (if i < length vertices then
        (let v1 = wr vertices i (scaled (rd vertices i) (rd center 0) range');
             v2 = wr v1 (i + 1) (scaled (rd v1 (i + 1)) (rd center 1) range');
             v3 = wr v2 (i + 2) (scaled (rd v2 (i + 2)) (rd center 2) range')
         in normalize_loop center range' v3 (i + 3))
      else vertices)"
  by pat_completeness auto
termination
  by (relation "measure (\<lambda>(center, range', vertices, i). length vertices - i)")
     (auto simp: wr_def)

declare minmax_inner.simps [simp del] minmax_loop.simps [simp del]
  normalize_loop.simps [simp del]

text \<open>The bounds \<open>(min, max)\<close>, both started at the first vertex.\<close>

definition bounds :: "jsval list \<Rightarrow> jsval list \<times> jsval list" where
  "bounds vertices =
     minmax_loop vertices 0
       ([rd vertices 0, rd vertices 1, rd vertices 2],
        [rd vertices 0, rd vertices 1, rd vertices 2])"

definition center_of :: "jsval list \<times> jsval list \<Rightarrow> jsval list" where
  "center_of mm =
     [js_div (js_add (rd (snd mm) 0) (rd (fst mm) 0)) (Fin 2),
      js_div (js_add (rd (snd mm) 1) (rd (fst mm) 1)) (Fin 2),
      js_div (js_add (rd (snd mm) 2) (rd (fst mm) 2)) (Fin 2)]"

definition range_of :: "jsval list \<times> jsval list \<Rightarrow> jsval" where
  "range_of mm =
     Math_max [js_sub (rd (snd mm) 0) (rd (fst mm) 0),
               js_sub (rd (snd mm) 1) (rd (fst mm) 1),
               js_sub (rd (snd mm) 2) (rd (fst mm) 2)]"

text \<open>The normalization part of \<open>load\<close>: bounds, center, range and the scaling loop.\<close>

definition normalization :: "jsval list \<Rightarrow> jsval list" where
  "normalization vertices =
     (let mm = bounds vertices;
          center = center_of mm;
          range' = range_of mm
      in normalize_loop center range' vertices 0)"

text \<open>
  \<open>load\<close>, from the text that \<open>loadExternalFile\<close> returned. It has no \<open>throw\<close>
  and calls nothing that throws on a string, so it always returns the pair.
\<close>

definition load :: "string \<Rightarrow> jsval list \<times> jsval list" where
  "load contents =
     (let p = parse_lines contents
      in (normalization (fst p), snd p))"

section \<open>Notions used to state the properties of the loader\<close>

text \<open>The lines of a text as \<open>load\<close> sees them: split at line feeds, each trimmed.\<close>

definition source_lines :: "string \<Rightarrow> string list" where
  "source_lines contents = map trim (split_on (CHR 0x0A) contents)"

definition vertex_lines :: "string \<Rightarrow> string list" where
  "vertex_lines contents = filter (\<lambda>l. startsWith l ''v '') (source_lines contents)"

definition face_lines :: "string \<Rightarrow> string list" where
  "face_lines contents = filter (\<lambda>l. startsWith l ''f '') (source_lines contents)"

text \<open>The reference tokens of a face line: what follows the leading \<open>f\<close>, split at white space.\<close>

definition face_refs :: "string \<Rightarrow> string list" where
  "face_refs l = drop 1 (split_ws (trim l))"

text \<open>The first slash-separated component of a reference, and the index it denotes.\<close>

definition first_component :: "string \<Rightarrow> string" where
  "first_component t = takeWhile (\<lambda>c. c \<noteq> CHR ''/'') t"

definition ref_index :: "string \<Rightarrow> jsval" where
  "ref_index t = js_sub (parseInt (first_component t)) (Fin 1)"

text \<open>
  A face record as it is written: the decimal numeral of a reference, and the line
  made of \<open>f\<close> and of tokens, each after one space. A token is not empty and has
  no white space.
\<close>

definition digit_char :: "nat \<Rightarrow> char" where
  "digit_char d = char_of (48 + d)"

fun decimal :: "nat \<Rightarrow> string" where
  "decimal n =
     (if n < 10 then [digit_char n]
      else decimal (n div 10) @ [digit_char (n mod 10)])"

declare decimal.simps [simp del]

definition face_line :: "string list \<Rightarrow> string" where
  "face_line ts = ''f'' @ concat (map (\<lambda>t. CHR '' '' # t) ts)"

definition is_token :: "string \<Rightarrow> bool" where
  "is_token t \<longleftrightarrow> t \<noteq> [] \<and> (\<forall>c \<in> set t. \<not> is_space c)"

text \<open>
  The coordinates of a flat vertex array on one axis: the entries \<open>3 q + a\<close> for the
  vertices \<open>k \<le> q < n\<close>; and the bounding box of an array of finite coordinates.
\<close>

definition column :: "nat \<Rightarrow> nat \<Rightarrow> nat \<Rightarrow> 'a list \<Rightarrow> 'a list" where
  "column a k n vs = map (\<lambda>q. vs ! (3 * q + a)) [k..<n]"

definition axis :: "nat \<Rightarrow> real list \<Rightarrow> real list" where
  "axis a rs = column a 0 (length rs div 3) rs"

definition lo :: "nat \<Rightarrow> real list \<Rightarrow> real" where
  "lo a rs = Min (set (axis a rs))"

definition hi :: "nat \<Rightarrow> real list \<Rightarrow> real" where
  "hi a rs = Max (set (axis a rs))"

definition extent :: "nat \<Rightarrow> real list \<Rightarrow> real" where
  "extent a rs = hi a rs - lo a rs"

definition box_center :: "nat \<Rightarrow> real list \<Rightarrow> real" where
  "box_center a rs = (hi a rs + lo a rs) / 2"

definition box_range :: "real list \<Rightarrow> real" where
  "box_range rs = max (max (extent 0 rs) (extent 1 rs)) (extent 2 rs)"

text \<open>
  The normalization as the specification words it: every coordinate becomes
  \<open>(coord - center[a]) / (range / 2)\<close>, with \<open>a\<close> its axis.
\<close>

definition normalized :: "real list \<Rightarrow> real list" where
  "normalized rs =
     map (\<lambda>j. (rs ! j - box_center (j mod 3) rs) / (box_range rs / 2)) [0..<length rs]"

section \<open>Vectors and matrices\<close>

text \<open>
  The camera and the scene nodes compute with the \<open>vec3\<close> and \<open>mat4\<close> helpers of
  gl-matrix. A vector is its three coordinates; a matrix is its four columns, in
  the column-major order of the library: the entries \<open>m[0..3]\<close>, \<open>m[4..7]\<close>,
  \<open>m[8..11]\<close> and \<open>m[12..15]\<close>. Numbers are real numbers here. The sums that
  \<open>vec3.add\<close> writes to \<open>eye\<close> and \<open>center\<close>, which are plain arrays of binary64
  numbers, are rounded to binary64; the rounding of the other helpers and of the
  \<open>Float32Array\<close> storage of the library is not modelled, and a property below
  that depends on the exact value of a result is stated for operands on which
  these operations are exact in binary64 and in \<open>Float32Array\<close> storage.
  Each helper returns what gl-matrix writes to its \<open>out\<close> argument, also when
  \<open>out\<close> is one of the operands, as in the calls below.
\<close>

type_synonym vec3 = "real \<times> real \<times> real"

type_synonym vec4 = "real \<times> real \<times> real \<times> real"

type_synonym mat4 = "vec4 \<times> vec4 \<times> vec4 \<times> vec4"

text \<open>
  Modelled from the spec: \<open>vec3.create\<close> (js/lib/glmatrix/vec3.js) is not under
  src/; a new vector is the zero vector.
\<close>

definition vec3_create :: vec3 where
  "vec3_create = (0, 0, 0)"

text \<open>
  The binary64 number nearest to a real number, ties going to the even
  significand: \<open>round_even\<close> rounds to the nearest integer, and \<open>fl64\<close> rounds to
  53 significant bits, or to a multiple of \<open>2 ^ -1074\<close> in the subnormal range.
  The overflow to an infinity beyond the largest binary64 number is not
  modelled.
\<close>

definition round_even :: "real \<Rightarrow> int" where
  "round_even x =
     (let n = \<lfloor>x\<rfloor>; f = x - of_int n
      in if f < 1 / 2 then n else if 1 / 2 < f then n + 1 else if even n then n else n + 1)"

definition fl64 :: "real \<Rightarrow> real" where
  "fl64 x =
     (if x = 0 then 0
      else
        (let e = max (\<lfloor>log 2 \<bar>x\<bar>\<rfloor> - 52) (- 1074)
         in of_int (round_even (x / 2 powi e)) * 2 powi e))"

text \<open>
  Modelled from the spec: \<open>vec3.subtract\<close> and \<open>vec3.add\<close>
  (js/lib/glmatrix/vec3.js) are not under src/; the difference and the sum of two
  vectors, coordinate by coordinate. The sums of \<open>vec3.add\<close> are the binary64
  sums: every call below writes them to \<open>eye\<close> or \<open>center\<close>.
\<close>

fun vec3_subtract :: "vec3 \<Rightarrow> vec3 \<Rightarrow> vec3" where
  "vec3_subtract (a0, a1, a2) (b0, b1, b2) = (a0 - b0, a1 - b1, a2 - b2)"

fun vec3_add :: "vec3 \<Rightarrow> vec3 \<Rightarrow> vec3" where
  "vec3_add (a0, a1, a2) (b0, b1, b2) = (fl64 (a0 + b0), fl64 (a1 + b1), fl64 (a2 + b2))"

text \<open>
  Modelled from the spec: \<open>vec3.scaleAndAdd(out, a, b, scale)\<close>
  (js/lib/glmatrix/vec3.js) is not under src/; it is \<open>a + b * scale\<close>.
\<close>

fun vec3_scaleAndAdd :: "vec3 \<Rightarrow> vec3 \<Rightarrow> real \<Rightarrow> vec3" where
  "vec3_scaleAndAdd (a0, a1, a2) (b0, b1, b2) scale =
     (a0 + b0 * scale, a1 + b1 * scale, a2 + b2 * scale)"

text \<open>
  Modelled from the spec: \<open>vec3.cross\<close> and \<open>vec3.normalize\<close>
  (js/lib/glmatrix/vec3.js) are not under src/; the cross product, and the vector
  scaled to unit length, the zero vector staying zero.
\<close>

fun vec3_cross :: "vec3 \<Rightarrow> vec3 \<Rightarrow> vec3" where
  "vec3_cross (ax, ay, az) (bx, by, bz) =
     (ay * bz - az * by, az * bx - ax * bz, ax * by - ay * bx)"

fun vec3_normalize :: "vec3 \<Rightarrow> vec3" where
  "vec3_normalize (x, y, z) =
     (let len = x * x + y * y + z * z;
          len' = (if 0 < len then 1 / sqrt len else len)
      in (x * len', y * len', z * len'))"

text \<open>
  Modelled from the spec: \<open>mat4.create\<close> (js/lib/glmatrix/mat4.js) is not under
  src/; a new matrix is the identity.
\<close>

definition mat4_create :: mat4 where
  "mat4_create = ((1, 0, 0, 0), (0, 1, 0, 0), (0, 0, 1, 0), (0, 0, 0, 1))"





text \<open>
  Modelled from the spec: \<open>mat4.fromRotation(out, rad, axis)\<close>
  (js/lib/glmatrix/mat4.js) is not under src/; it is the rotation by the angle
  \<open>rad\<close> about \<open>axis\<close>. For an axis shorter than the library's \<open>EPSILON\<close> it
  writes nothing, and \<open>out\<close> stays as it was.
\<close>

definition EPSILON :: real where
  "EPSILON = 1 / 1000000"

fun mat4_fromRotation :: "mat4 \<Rightarrow> real \<Rightarrow> vec3 \<Rightarrow> mat4" where
  "mat4_fromRotation out rad (x0, y0, z0) =
     (let len = sqrt (x0 * x0 + y0 * y0 + z0 * z0)
      in if len < EPSILON then out
         else
           (let x = x0 * (1 / len); y = y0 * (1 / len); z = z0 * (1 / len);
                s = sin rad; c = cos rad; t = 1 - c
            in ((x * x * t + c, y * x * t + z * s, z * x * t - y * s, 0),
                (x * y * t - z * s, y * y * t + c, z * y * t + x * s, 0),
                (x * z * t + y * s, y * z * t - x * s, z * z * t + c, 0),
                (0, 0, 0, 1))))"

text \<open>
  Modelled from the spec: \<open>vec3.transformMat4(out, a, m)\<close>
  (js/lib/glmatrix/vec3.js) is not under src/; the point \<open>a\<close> transformed by
  \<open>m\<close>, divided by the fourth coordinate (by 1 when that is 0).
\<close>

fun vec3_transformMat4 :: "vec3 \<Rightarrow> mat4 \<Rightarrow> vec3" where
  "vec3_transformMat4 (x, y, z) ((m0, m1, m2, m3), (m4, m5, m6, m7),
                                 (m8, m9, m10, m11), (m12, m13, m14, m15)) =
     (let w0 = m3 * x + m7 * y + m11 * z + m15;
          w = (if w0 = 0 then 1 else w0)
      in ((m0 * x + m4 * y + m8 * z + m12) / w,
          (m1 * x + m5 * y + m9 * z + m13) / w,
          (m2 * x + m6 * y + m10 * z + m14) / w))"

section \<open>WebGlApp: the camera and the scene nodes\<close>

text \<open>
  Modelled from the spec: \<open>Input\<close> (js/input/input.js) is not under src/. The
  input device is polled (section 6): which buttons and keys are down and the
  pointer deltas of the frame. The state of one frame is a record, and reading
  it does not change it.
\<close>

record input =
  isMouseDown :: "nat \<Rightarrow> bool"
  isKeyDown :: "string \<Rightarrow> bool"
  getMouseDx :: real
  getMouseDy :: real

text \<open>
  The fields of \<open>WebGlApp\<close> that \<open>updateCamera\<close> and \<open>updateSceneNode\<close> read or
  write. The view matrix and the shader uniform are only written, for the
  renderer, and are left out.
\<close>

record camera =
  eye :: vec3
  center :: vec3
  forward :: vec3
  right :: vec3
  up :: vec3

definition updateViewSpaceVectors :: "camera \<Rightarrow> camera" where
  "updateViewSpaceVectors cam =
     (let f = vec3_normalize (vec3_subtract (eye cam) (center cam));
          r = vec3_normalize (vec3_cross (0, 1, 0) f);
          u = vec3_normalize (vec3_cross f r)
      in cam\<lparr>forward := f, right := r, up := u\<rparr>)"

text \<open>
  The camera that the constructor leaves: \<open>eye = [2.0, 0.5, -2.0]\<close>, \<open>center =
  [0, 0, 0]\<close>, and the view vectors computed from them.
\<close>

definition initial_camera :: camera where
  "initial_camera =
     updateViewSpaceVectors
       \<lparr>eye = (2, 1 / 2, - 2), center = (0, 0, 0),
        forward = (0, 0, 0), right = (0, 0, 0), up = (0, 0, 0)\<rparr>"

text \<open>The three blocks of \<open>updateCamera\<close>: zoom, rotate and pan.\<close>

definition camera_zoom :: "input \<Rightarrow> real \<Rightarrow> camera \<Rightarrow> camera" where
  "camera_zoom inp delta_time cam =
     (let zoomSpeed = 2 * delta_time;
          dy = getMouseDy inp;
          direction = vec3_subtract (eye cam) (center cam);
          scaleFactor = 1 + dy * zoomSpeed
      in cam\<lparr>eye := vec3_scaleAndAdd (center cam) direction scaleFactor\<rparr>)"

definition camera_rotate :: "input \<Rightarrow> real \<Rightarrow> camera \<Rightarrow> camera" where
  "camera_rotate inp delta_time cam =
     (let sensitivity = 2 * delta_time;
          dx = getMouseDx inp;
          dy = getMouseDy inp;
          offset = vec3_subtract (eye cam) (center cam);
          rotationY = mat4_fromRotation mat4_create (- dx * sensitivity) (up cam);
          offset1 = vec3_transformMat4 offset rotationY;
          rotationX = mat4_fromRotation mat4_create (- dy * sensitivity) (right cam);
          offset2 = vec3_transformMat4 offset1 rotationX
      in cam\<lparr>eye := vec3_add (center cam) offset2\<rparr>)"

definition pan_vector :: "input \<Rightarrow> real \<Rightarrow> camera \<Rightarrow> vec3" where
  "pan_vector inp delta_time cam =
     (let panSpeed = 2 * delta_time;
          dx = getMouseDx inp;
          dy = getMouseDy inp;
          p0 = vec3_create;
          p1 = vec3_scaleAndAdd p0 (right cam) (- dx * panSpeed)
      in vec3_scaleAndAdd p1 (up cam) (dy * panSpeed))"

definition camera_pan :: "input \<Rightarrow> real \<Rightarrow> camera \<Rightarrow> camera" where
  "camera_pan inp delta_time cam =
     (let p = pan_vector inp delta_time cam
      in cam\<lparr>eye := vec3_add (eye cam) p, center := vec3_add (center cam) p\<rparr>)"

text \<open>The conditions of the three blocks.\<close>

definition zoom_held :: "input \<Rightarrow> bool" where
  "zoom_held inp \<longleftrightarrow> isMouseDown inp 2"

definition rotate_held :: "input \<Rightarrow> bool" where
  "rotate_held inp \<longleftrightarrow> isMouseDown inp 0 \<and> \<not> isKeyDown inp '' ''"

definition pan_held :: "input \<Rightarrow> bool" where
  "pan_held inp \<longleftrightarrow> isMouseDown inp 1 \<or> (isMouseDown inp 0 \<and> isKeyDown inp '' '')"

text \<open>
  \<open>updateCamera\<close>: three \<open>if\<close> statements in sequence, each on the camera the
  one before has left, then the view vectors if anything has changed.
\<close>

definition updateCamera :: "input \<Rightarrow> real \<Rightarrow> camera \<Rightarrow> camera" where
  "updateCamera inp delta_time cam =
     (let view_dirty0 = False;
          cam1 = (if zoom_held inp then camera_zoom inp delta_time cam else cam);
          view_dirty1 = (if zoom_held inp then True else view_dirty0);
          cam2 = (if rotate_held inp then camera_rotate inp delta_time cam1 else cam1);
          view_dirty2 = (if rotate_held inp then True else view_dirty1);
          cam3 = (if pan_held inp then camera_pan inp delta_time cam2 else cam2);
          view_dirty3 = (if pan_held inp then True else view_dirty2)
      in if view_dirty3 then updateViewSpaceVectors cam3 else cam3)"







text \<open>A frame with only the secondary button held and the vertical pointer delta \<open>dy\<close>.\<close>

definition secondary_drag :: "real \<Rightarrow> input" where
  "secondary_drag dy =
     \<lparr>isMouseDown = (\<lambda>n. n = 2), isKeyDown = (\<lambda>k. False),
      getMouseDx = 0, getMouseDy = dy\<rparr>"


text \<open>
  Numbers on which the arithmetic of the camera is exact: \<open>dyadic k b x\<close> says
  that \<open>x\<close> is a multiple of \<open>2 ^ -k\<close> of magnitude at most \<open>b\<close>, and \<open>dyadic3\<close>
  says it of the three coordinates of a vector.
\<close>

definition dyadic :: "nat \<Rightarrow> real \<Rightarrow> real \<Rightarrow> bool" where
  "dyadic k b x \<longleftrightarrow> real_of_int \<lfloor>x * 2 ^ k\<rfloor> = x * 2 ^ k \<and> \<bar>x\<bar> \<le> b"

fun dyadic3 :: "nat \<Rightarrow> real \<Rightarrow> vec3 \<Rightarrow> bool" where
  "dyadic3 k b (x, y, z) \<longleftrightarrow> dyadic k b x \<and> dyadic k b y \<and> dyadic k b z"

text \<open>
  A coordinate \<open>o2\<close> of an offset from the center lies farther out than the
  coordinate \<open>o1\<close>, on the same side: both are 0, or \<open>o2\<close> has the sign of \<open>o1\<close>
  and a greater magnitude. \<open>farther3\<close> says it of the three coordinates.
\<close>

definition farther :: "real \<Rightarrow> real \<Rightarrow> bool" where
  "farther o1 o2 \<longleftrightarrow> (o1 = 0 \<and> o2 = 0) \<or> (0 < o1 \<and> o1 < o2) \<or> (o2 < o1 \<and> o1 < 0)"

fun farther3 :: "vec3 \<Rightarrow> vec3 \<Rightarrow> bool" where
  "farther3 (x, y, z) (x', y', z') \<longleftrightarrow> farther x x' \<and> farther y y' \<and> farther z z'"

text \<open>The length of a vector, and the last column of a matrix without its fourth entry.\<close>

fun vec3_length :: "vec3 \<Rightarrow> real" where
  "vec3_length (x, y, z) = sqrt (x * x + y * y + z * z)"


section \<open>The parser\<close>

subsection \<open>Face records\<close>

lemma split_on_first: "elem (split_on sep t) 0 = Some (takeWhile (\<lambda>c. c \<noteq> sep) t)"
proof (cases "dropWhile (\<lambda>c. c \<noteq> sep) t")
  case Nil
  then have tw: "takeWhile (\<lambda>c. c \<noteq> sep) t = t"
    by (metis takeWhile_dropWhile_id append_Nil2)
  have "split_on sep t = [t]"
    by (subst split_on.simps) (simp only: Nil list.case)
  moreover have "elem [t] 0 = Some t"
    by (simp add: elem_def)
  ultimately show ?thesis
    by (simp only: tw)
next
  case (Cons a rest)
  have "split_on sep t = takeWhile (\<lambda>c. c \<noteq> sep) t # split_on sep rest"
    by (subst split_on.simps) (simp only: Cons list.case)
  then show ?thesis
    by (simp add: elem_def)
qed

lemma parseFace_loop_eq:
  "parseFace_loop parts i acc = acc @ map ref_index (drop i parts)"
proof (induction parts i acc rule: parseFace_loop.induct)
  case (1 parts i indices)
  show ?case
  proof (cases "i < length parts")
    case True
    then have d: "drop i parts = parts ! i # drop (i + 1) parts"
      by (simp add: Cons_nth_drop_Suc)
    from True 1 show ?thesis
      by (subst parseFace_loop.simps)
         (simp add: d ref_index_def first_component_def split_on_first to_string_def Let_def)
  next
    case False
    then show ?thesis
      by (subst parseFace_loop.simps) simp
  qed
qed

lemma parseFace_eq:
  "parseFace l =
     (let ix = map ref_index (face_refs l)
      in if length ix = 4 then triangulateFace ix else ix)"
  by (simp add: parseFace_def parseFace_loop_eq face_refs_def Let_def)

lemma parseFace_other:
  "length (face_refs l) \<noteq> 4 \<Longrightarrow> parseFace l = map ref_index (face_refs l)"
  by (simp add: parseFace_eq Let_def)

lemma parseFace_quad:
  "face_refs l = [r0, r1, r2, r3] \<Longrightarrow>
   parseFace l = [ref_index r0, ref_index r1, ref_index r2, ref_index r0, ref_index r2, ref_index r3]"
  by (simp add: parseFace_eq Let_def triangulateFace_def rd_def)

subsection \<open>The line loop\<close>

lemma startsWith_v_not_f: "startsWith l ''v '' \<Longrightarrow> \<not> startsWith l ''f ''"
  by (auto simp: startsWith_def)

lemma foldl_load_line:
  "foldl load_line st ls =
     (fst st @ concat (map parseVertex (filter (\<lambda>l. startsWith l ''v '') (map trim ls))),
      snd st @ concat (map parseFace (filter (\<lambda>l. startsWith l ''f '') (map trim ls))))"
proof (induction ls arbitrary: st)
  case Nil
  show ?case by simp
next
  case (Cons l ls)
  have step: "load_line st l =
      (fst st @ (if startsWith (trim l) ''v '' then parseVertex (trim l) else []),
       snd st @ (if startsWith (trim l) ''f '' then parseFace (trim l) else []))"
    by (auto simp: load_line_def Let_def dest: startsWith_v_not_f)
  have "foldl load_line st (l # ls) = foldl load_line (load_line st l) ls"
    by simp
  also have "\<dots> = (fst (load_line st l) @ concat (map parseVertex (filter (\<lambda>l. startsWith l ''v '') (map trim ls))),
      snd (load_line st l) @ concat (map parseFace (filter (\<lambda>l. startsWith l ''f '') (map trim ls))))"
    by (rule Cons.IH)
  finally show ?case
    by (simp add: step)
qed

lemma parse_lines_eq:
  "parse_lines s =
     (concat (map parseVertex (vertex_lines s)), concat (map parseFace (face_lines s)))"
  by (simp add: parse_lines_def foldl_load_line vertex_lines_def face_lines_def source_lines_def)

lemma length_parseVertex: "length (parseVertex l) = 3"
  by (simp add: parseVertex_def Let_def)

lemma length_concat_parseVertex: "length (concat (map parseVertex ls)) = 3 * length ls"
  by (induction ls) (simp_all add: length_parseVertex)

subsection \<open>The passes over the vertex array\<close>

lemma length_wr: "length (wr a k v) = max (length a) (k + 1)"
  by (auto simp: wr_def)

lemma normalize_loop_nth:
  "length vs mod 3 = 0 \<Longrightarrow> i mod 3 = 0 \<Longrightarrow>
   length (normalize_loop c r vs i) = length vs \<and>
   (\<forall>j < length vs. normalize_loop c r vs i ! j =
      (if j < i then vs ! j else scaled (vs ! j) (rd c (j mod 3)) r))"
proof (induction c r vs i rule: normalize_loop.induct)
  case (1 c r vs i)
  show ?case
  proof (cases "i < length vs")
    case False
    then show ?thesis
      by (subst normalize_loop.simps, subst normalize_loop.simps) simp
  next
    case True
    with "1.prems" have lt: "i + 2 < length vs"
      by presburger
    define v1 where "v1 = wr vs i (scaled (rd vs i) (rd c 0) r)"
    define v2 where "v2 = wr v1 (i + 1) (scaled (rd v1 (i + 1)) (rd c 1) r)"
    define v3 where "v3 = wr v2 (i + 2) (scaled (rd v2 (i + 2)) (rd c 2) r)"
    have v1: "v1 = vs[i := scaled (vs ! i) (rd c 0) r]"
      using lt by (simp add: v1_def wr_def rd_def)
    have v2: "v2 = v1[i + 1 := scaled (vs ! (i + 1)) (rd c 1) r]"
      using lt by (simp add: v2_def v1 wr_def rd_def)
    have v3: "v3 = v2[i + 2 := scaled (vs ! (i + 2)) (rd c 2) r]"
      using lt by (simp add: v3_def v2 v1 wr_def rd_def)
    have len: "length v3 = length vs"
      by (simp add: v3 v2 v1)
    have unfold: "normalize_loop c r vs i = normalize_loop c r v3 (i + 3)"
      using True by (subst normalize_loop.simps) (simp add: v1_def v2_def v3_def Let_def)
    have m: "(i + 3) mod 3 = 0"
      using "1.prems" by presburger
    have IH: "length (normalize_loop c r v3 (i + 3)) = length v3 \<and>
      (\<forall>j < length v3. normalize_loop c r v3 (i + 3) ! j =
         (if j < i + 3 then v3 ! j else scaled (v3 ! j) (rd c (j mod 3)) r))"
      using "1.IH" [OF True v1_def v2_def v3_def] "1.prems" len m by simp
    have i0: "i mod 3 = 0" using "1.prems" by simp
    have m1: "(i + 1) mod 3 = 1" using i0 by presburger
    have m2: "(i + 2) mod 3 = 2" using i0 by presburger
    show ?thesis
    proof (intro conjI allI impI)
      show "length (normalize_loop c r vs i) = length vs"
        using IH len unfold by simp
    next
      fix j assume j: "j < length vs"
      consider "j < i" | "j = i" | "j = i + 1" | "j = i + 2" | "i + 3 \<le> j"
        by linarith
      then show "normalize_loop c r vs i ! j =
        (if j < i then vs ! j else scaled (vs ! j) (rd c (j mod 3)) r)"
      proof cases
        case 1 then show ?thesis using IH j len unfold by (simp add: v3 v2 v1)
      next
        case 2 then show ?thesis using IH j len unfold lt i0 by (simp add: v3 v2 v1)
      next
        case 3 then show ?thesis using IH j len unfold lt m1 by (simp add: v3 v2 v1)
      next
        case 4 then show ?thesis using IH j len unfold lt m2 by (simp add: v3 v2 v1)
      next
        case 5 then show ?thesis using IH j len unfold by (simp add: v3 v2 v1)
      qed
    qed
  qed
qed

lemma minmax_inner_eq:
  "minmax_inner vs i 0 ([m0, m1, m2], [x0, x1, x2]) =
     ([Math_min [m0, rd vs i], Math_min [m1, rd vs (i + 1)], Math_min [m2, rd vs (i + 2)]],
      [Math_max [x0, rd vs i], Math_max [x1, rd vs (i + 1)], Math_max [x2, rd vs (i + 2)]])"
  by (simp add: minmax_inner.simps wr_def rd_def)

lemma column_step: "k < n \<Longrightarrow> column a k n vs = vs ! (3 * k + a) # column a (Suc k) n vs"
  by (simp add: column_def upt_conv_Cons)

lemma column_empty: "column a n n vs = []"
  by (simp add: column_def)

lemma minmax_loop_fold:
  "length vs = 3 * n \<Longrightarrow> k \<le> n \<Longrightarrow>
   minmax_loop vs (3 * k) ([m0, m1, m2], [x0, x1, x2]) =
     ([foldl (\<lambda>x y. Math_min [x, y]) m0 (column 0 k n vs),
       foldl (\<lambda>x y. Math_min [x, y]) m1 (column 1 k n vs),
       foldl (\<lambda>x y. Math_min [x, y]) m2 (column 2 k n vs)],
      [foldl (\<lambda>x y. Math_max [x, y]) x0 (column 0 k n vs),
       foldl (\<lambda>x y. Math_max [x, y]) x1 (column 1 k n vs),
       foldl (\<lambda>x y. Math_max [x, y]) x2 (column 2 k n vs)])"
proof (induction "n - k" arbitrary: k m0 m1 m2 x0 x1 x2)
  case 0
  then have "k = n" by simp
  then show ?case
    using 0 by (subst minmax_loop.simps) (simp add: column_empty)
next
  case (Suc d)
  then have kn: "k < n" and d: "d = n - Suc k" and le: "Suc k \<le> n"
    by simp_all
  have in_range: "3 * k + 2 < length vs"
    using kn Suc.prems by simp
  have unfold: "minmax_loop vs (3 * k) ([m0, m1, m2], [x0, x1, x2]) =
      minmax_loop vs (3 * Suc k)
        ([Math_min [m0, vs ! (3 * k)], Math_min [m1, vs ! (3 * k + 1)], Math_min [m2, vs ! (3 * k + 2)]],
         [Math_max [x0, vs ! (3 * k)], Math_max [x1, vs ! (3 * k + 1)], Math_max [x2, vs ! (3 * k + 2)]])"
    using in_range
    by (subst minmax_loop.simps) (simp add: minmax_inner_eq rd_def add.commute)
  show ?case
    unfolding unfold
    by (subst Suc.hyps(1) [OF d Suc.prems(1) le]) (simp add: column_step [OF kn])
qed

lemma Math_min2_Fin: "Math_min [Fin a, Fin b] = Fin (min a b)"
  by (simp add: Math_min_def min2_def min_def)

lemma Math_max2_Fin: "Math_max [Fin a, Fin b] = Fin (max a b)"
  by (simp add: Math_max_def max2_def max_def)

lemma Math_max3_Fin: "Math_max [Fin a, Fin b, Fin c] = Fin (max (max a b) c)"
  by (simp add: Math_max_def max2_def max_def)

lemma foldl_Math_min_Fin:
  "foldl (\<lambda>x y. Math_min [x, y]) (Fin m) (map Fin xs) = Fin (fold min xs m)"
  by (induction xs arbitrary: m) (simp_all add: Math_min2_Fin min.commute)

lemma foldl_Math_max_Fin:
  "foldl (\<lambda>x y. Math_max [x, y]) (Fin m) (map Fin xs) = Fin (fold max xs m)"
  by (induction xs arbitrary: m) (simp_all add: Math_max2_Fin max.commute)

lemma column_map:
  "a < 3 \<Longrightarrow> 3 * n \<le> length rs \<Longrightarrow> column a k n (map f rs) = map f (column a k n rs)"
  by (simp add: column_def)

lemma fold_min_column:
  assumes "0 < n"
  shows "fold min (column a 0 n rs) (rs ! a) = Min (set (column a 0 n rs))"
proof -
  have c: "column a 0 n rs = rs ! a # column a (Suc 0) n rs"
    using column_step [OF assms, of a rs] by simp
  have "fold min (column a 0 n rs) (rs ! a) = Min (set (rs ! a # column a 0 n rs))"
    by (simp only: Min.set_eq_fold)
  also have "set (rs ! a # column a 0 n rs) = set (column a 0 n rs)"
    by (subst (2) c, subst c) auto
  finally show ?thesis .
qed

lemma fold_max_column:
  assumes "0 < n"
  shows "fold max (column a 0 n rs) (rs ! a) = Max (set (column a 0 n rs))"
proof -
  have c: "column a 0 n rs = rs ! a # column a (Suc 0) n rs"
    using column_step [OF assms, of a rs] by simp
  have "fold max (column a 0 n rs) (rs ! a) = Max (set (rs ! a # column a 0 n rs))"
    by (simp only: Max.set_eq_fold)
  also have "set (rs ! a # column a 0 n rs) = set (column a 0 n rs)"
    by (subst (2) c, subst c) auto
  finally show ?thesis .
qed

lemma bounds_Fin:
  assumes len: "length rs = 3 * n" and n: "0 < n"
  shows "bounds (map Fin rs) =
    ([Fin (lo 0 rs), Fin (lo 1 rs), Fin (lo 2 rs)], [Fin (hi 0 rs), Fin (hi 1 rs), Fin (hi 2 rs)])"
proof -
  have l3: "3 \<le> length rs" using len n by simp
  have dv: "length rs div 3 = n" using len by simp
  have rd0: "rd (map Fin rs) 0 = Fin (rs ! 0)" "rd (map Fin rs) 1 = Fin (rs ! 1)"
    "rd (map Fin rs) 2 = Fin (rs ! 2)"
    using l3 by (auto simp: rd_def)
  have "bounds (map Fin rs) =
      minmax_loop (map Fin rs) (3 * 0)
        ([Fin (rs ! 0), Fin (rs ! 1), Fin (rs ! 2)], [Fin (rs ! 0), Fin (rs ! 1), Fin (rs ! 2)])"
    unfolding bounds_def rd0 by simp
  also have "\<dots> =
     ([Fin (lo 0 rs), Fin (lo 1 rs), Fin (lo 2 rs)], [Fin (hi 0 rs), Fin (hi 1 rs), Fin (hi 2 rs)])"
    using len
    by (subst minmax_loop_fold [where n = n])
       (simp_all add: column_map foldl_Math_min_Fin foldl_Math_max_Fin
          fold_min_column [OF n] fold_max_column [OF n] lo_def hi_def axis_def dv)
  finally show ?thesis .
qed

lemma center_of_Fin:
  "center_of ([Fin l0, Fin l1, Fin l2], [Fin h0, Fin h1, Fin h2]) =
     [Fin ((h0 + l0) / 2), Fin ((h1 + l1) / 2), Fin ((h2 + l2) / 2)]"
  by (simp add: center_of_def rd_def js_div_def js_add_def)

lemma range_of_Fin:
  "range_of ([Fin l0, Fin l1, Fin l2], [Fin h0, Fin h1, Fin h2]) =
     Fin (max (max (h0 - l0) (h1 - l1)) (h2 - l2))"
  by (simp add: range_of_def rd_def js_sub_def Math_max3_Fin)

lemma length_normalization:
  "length vs mod 3 = 0 \<Longrightarrow> length (normalization vs) = length vs"
  using normalize_loop_nth [of vs 0] by (simp add: normalization_def Let_def)

lemma normalization_nth:
  "length vs mod 3 = 0 \<Longrightarrow> j < length vs \<Longrightarrow>
   normalization vs ! j = scaled (vs ! j) (rd (center_of (bounds vs)) (j mod 3)) (range_of (bounds vs))"
  using normalize_loop_nth [of vs 0] by (simp add: normalization_def Let_def)

lemma rd3:
  "a < 3 \<Longrightarrow> rd [x0, x1, x2] a = [x0, x1, x2] ! a"
  by (simp add: rd_def)

lemma center_range_Fin:
  assumes len: "length rs = 3 * n" and n: "0 < n"
  shows "center_of (bounds (map Fin rs)) =
           [Fin (box_center 0 rs), Fin (box_center 1 rs), Fin (box_center 2 rs)]"
    and "range_of (bounds (map Fin rs)) = Fin (box_range rs)"
  by (simp_all only: bounds_Fin [OF len n] center_of_Fin range_of_Fin
      box_center_def extent_def box_range_def)

lemma nth3:
  "a < 3 \<Longrightarrow> [f 0, f 1, f (2::nat)] ! a = f a"
  by (auto simp: nth_Cons' less_Suc_eq numeral_3_eq_3 numeral_2_eq_2)

lemma normalization_Fin_nth:
  assumes len: "length rs = 3 * n" and n: "0 < n" and j: "j < length rs"
  shows "normalization (map Fin rs) ! j =
     num_div (Fin (rs ! j - box_center (j mod 3) rs)) (Fin (box_range rs / 2))"
proof -
  have m: "length (map Fin rs) mod 3 = 0" using len by simp
  have a: "j mod 3 < 3" by simp
  have c: "rd (center_of (bounds (map Fin rs))) (j mod 3) = Fin (box_center (j mod 3) rs)"
    unfolding center_range_Fin(1) [OF len n] rd3 [OF a]
    using nth3 [OF a, of "\<lambda>a. Fin (box_center a rs)"] by simp
  have "normalization (map Fin rs) ! j =
      scaled (Fin (rs ! j)) (Fin (box_center (j mod 3) rs)) (Fin (box_range rs))"
    using normalization_nth [OF m, of j] j by (simp add: c center_range_Fin(2) [OF len n])
  then show ?thesis
    by (simp add: scaled_def js_div_def js_sub_def)
qed

subsection \<open>Trimming and the step of the line loop\<close>

lemma dropWhile_hd_id: "xs = [] \<or> \<not> P (hd xs) \<Longrightarrow> dropWhile P xs = xs"
  by (cases xs) auto

lemma trim_idem: "trim (trim s) = trim s"
proof -
  define t where "t = dropWhile is_space s"
  define u where "u = rev (dropWhile is_space (rev t))"
  have t: "t = [] \<or> \<not> is_space (hd t)"
    unfolding t_def by (metis hd_dropWhile)
  have "rev t = takeWhile is_space (rev t) @ dropWhile is_space (rev t)"
    by simp
  then have tu: "t = u @ rev (takeWhile is_space (rev t))"
    unfolding u_def by (metis rev_append rev_rev_ident)
  then have "u = [] \<or> hd u = hd t"
    by (metis hd_append2)
  moreover have "u \<noteq> [] \<longrightarrow> t \<noteq> []"
    using tu by auto
  ultimately have "u = [] \<or> \<not> is_space (hd u)"
    using t by auto
  then have 1: "dropWhile is_space u = u"
    by (rule dropWhile_hd_id)
  have 2: "dropWhile is_space (rev u) = rev u"
    unfolding u_def by simp
  have "trim u = u"
    unfolding trim_def 1 2 by simp
  then show ?thesis
    by (simp add: u_def t_def trim_def)
qed

lemma load_line_face:
  "startsWith (trim l) ''f '' \<Longrightarrow>
   load_line (vs, ix) l = (vs, ix @ parseFace (trim l))"
  by (auto simp: load_line_def Let_def dest: startsWith_v_not_f)

subsection \<open>The result of \<open>load\<close>\<close>

lemma load_eq:
  "load s =
     (normalization (concat (map parseVertex (vertex_lines s))),
      concat (map parseFace (face_lines s)))"
  by (simp add: load_def parse_lines_eq Let_def)

lemma length_positions: "length (fst (load s)) = 3 * length (vertex_lines s)"
  by (simp add: load_eq length_normalization length_concat_parseVertex)

lemma normalization_Nil: "normalization [] = []"
  by (simp add: normalization_def Let_def normalize_loop.simps)

subsection \<open>A coordinate that is \<open>NaN\<close>\<close>

lemma Math_min2_NaN: "to_number x = NaN \<or> to_number y = NaN \<Longrightarrow> Math_min [x, y] = NaN"
  by (auto simp: Math_min_def min2_def Let_def)

lemma Math_max2_NaN: "to_number x = NaN \<or> to_number y = NaN \<Longrightarrow> Math_max [x, y] = NaN"
  by (auto simp: Math_max_def max2_def Let_def)

lemma foldl_Math_min_NaN_start: "foldl (\<lambda>x y. Math_min [x, y]) NaN xs = NaN"
  by (induction xs) (simp_all add: Math_min2_NaN)

lemma foldl_Math_max_NaN_start: "foldl (\<lambda>x y. Math_max [x, y]) NaN xs = NaN"
  by (induction xs) (simp_all add: Math_max2_NaN)

lemma foldl_Math_min_NaN: "NaN \<in> set xs \<Longrightarrow> foldl (\<lambda>x y. Math_min [x, y]) m xs = NaN"
  by (induction xs arbitrary: m) (auto simp: Math_min2_NaN foldl_Math_min_NaN_start)

lemma foldl_Math_max_NaN: "NaN \<in> set xs \<Longrightarrow> foldl (\<lambda>x y. Math_max [x, y]) m xs = NaN"
  by (induction xs arbitrary: m) (auto simp: Math_max2_NaN foldl_Math_max_NaN_start)

lemma max2_NaN_left: "max2 NaN y = NaN"
  by (simp add: max2_def)

lemma foldl_max2_NaN_start: "foldl max2 NaN xs = NaN"
  by (induction xs) (simp_all add: max2_NaN_left)

lemma Math_max_NaN: "NaN \<in> set args \<Longrightarrow> Math_max args = NaN"
proof -
  have "NaN \<in> set args \<Longrightarrow> foldl max2 m args = NaN" for m
    by (induction args arbitrary: m) (auto simp: max2_def Let_def foldl_max2_NaN_start)
  then show "NaN \<in> set args \<Longrightarrow> Math_max args = NaN"
    by (simp add: Math_max_def)
qed

lemma scaled_NaN: "scaled v c NaN = NaN"
  by (cases "to_number (js_sub v c)") (simp_all add: scaled_def js_div_def)

lemma in_column:
  assumes "j < 3 * n"
  shows "vs ! j \<in> set (column (j mod 3) 0 n vs)"
proof -
  have "j div 3 < n" using assms by simp
  moreover have "3 * (j div 3) + j mod 3 = j" by simp
  ultimately show ?thesis
    unfolding column_def by (metis (no_types, lifting) atLeast0LessThan imageI image_set lessThan_iff set_upt)
qed

lemma mem3: "a < 3 \<Longrightarrow> f a \<in> set [f 0, f 1, f (2::nat)]"
  by (auto simp: less_Suc_eq numeral_3_eq_3 numeral_2_eq_2)

lemma bounds_fold:
  assumes len: "length vs = 3 * n" and n: "0 < n"
  shows "bounds vs =
     ([foldl (\<lambda>x y. Math_min [x, y]) (vs ! 0) (column 0 0 n vs),
       foldl (\<lambda>x y. Math_min [x, y]) (vs ! 1) (column 1 0 n vs),
       foldl (\<lambda>x y. Math_min [x, y]) (vs ! 2) (column 2 0 n vs)],
      [foldl (\<lambda>x y. Math_max [x, y]) (vs ! 0) (column 0 0 n vs),
       foldl (\<lambda>x y. Math_max [x, y]) (vs ! 1) (column 1 0 n vs),
       foldl (\<lambda>x y. Math_max [x, y]) (vs ! 2) (column 2 0 n vs)])"
proof -
  have l3: "3 \<le> length vs" using len n by simp
  have rd0: "rd vs 0 = vs ! 0" "rd vs 1 = vs ! 1" "rd vs 2 = vs ! 2"
    using l3 by (auto simp: rd_def)
  have "bounds vs = minmax_loop vs (3 * 0) ([vs ! 0, vs ! 1, vs ! 2], [vs ! 0, vs ! 1, vs ! 2])"
    unfolding bounds_def rd0 by simp
  also note minmax_loop_fold [OF len, of 0]
  finally show ?thesis by simp
qed

lemma range_of_NaN:
  assumes len: "length vs = 3 * n" and nan: "NaN \<in> set vs"
  shows "range_of (bounds vs) = NaN"
proof -
  from nan obtain j where j: "j < length vs" and vj: "vs ! j = NaN"
    by (metis in_set_conv_nth)
  then have n: "0 < n" using len by auto
  define a where "a = j mod 3"
  have a3: "a < 3" by (simp add: a_def)
  have "NaN \<in> set (column a 0 n vs)"
    using in_column [of j n vs] j len vj by (simp add: a_def)
  then have mx: "foldl (\<lambda>x y. Math_max [x, y]) m (column a 0 n vs) = NaN" for m
    by (rule foldl_Math_max_NaN)
  have "rd (snd (bounds vs)) a = foldl (\<lambda>x y. Math_max [x, y]) (vs ! a) (column a 0 n vs)"
    unfolding bounds_fold [OF len n] snd_conv rd3 [OF a3]
    using nth3 [OF a3, of "\<lambda>a. foldl (\<lambda>x y. Math_max [x, y]) (vs ! a) (column a 0 n vs)"]
    by simp
  then have "rd (snd (bounds vs)) a = NaN"
    by (simp add: mx)
  then have "js_sub (rd (snd (bounds vs)) a) (rd (fst (bounds vs)) a) = NaN"
    by (simp add: js_sub_def)
  then have "NaN \<in> set [js_sub (rd (snd (bounds vs)) 0) (rd (fst (bounds vs)) 0),
       js_sub (rd (snd (bounds vs)) 1) (rd (fst (bounds vs)) 1),
       js_sub (rd (snd (bounds vs)) 2) (rd (fst (bounds vs)) 2)]"
    using mem3 [OF a3, of "\<lambda>a. js_sub (rd (snd (bounds vs)) a) (rd (fst (bounds vs)) a)"]
    by simp
  then show ?thesis
    unfolding range_of_def by (rule Math_max_NaN)
qed

lemma normalization_NaN:
  assumes len: "length vs = 3 * n" and nan: "NaN \<in> set vs" and p: "p \<in> set (normalization vs)"
  shows "p = NaN"
proof -
  have m: "length vs mod 3 = 0" using len by simp
  from p obtain j where "j < length (normalization vs)" and "normalization vs ! j = p"
    by (metis in_set_conv_nth)
  then have "j < length vs" and "p = normalization vs ! j"
    by (simp_all add: length_normalization [OF m])
  then show ?thesis
    by (simp add: normalization_nth [OF m] range_of_NaN [OF len nan] scaled_NaN)
qed

subsection \<open>The bounding box of the normalized vertices\<close>

lemma axis_nonempty: "length rs = 3 * n \<Longrightarrow> 0 < n \<Longrightarrow> axis a rs \<noteq> []"
  by (simp add: axis_def column_def)

lemma lo_le_hi:
  assumes "length rs = 3 * n" "0 < n"
  shows "lo a rs \<le> hi a rs"
proof -
  obtain x where x: "x \<in> set (axis a rs)"
    using axis_nonempty [OF assms, of a] by (cases "axis a rs") auto
  then have "Min (set (axis a rs)) \<le> x" and "x \<le> Max (set (axis a rs))"
    by simp_all
  then show ?thesis
    unfolding lo_def hi_def by simp
qed

lemma extent_nonneg: "length rs = 3 * n \<Longrightarrow> 0 < n \<Longrightarrow> 0 \<le> extent a rs"
  using lo_le_hi [of rs n a] by (simp add: extent_def)

lemma box_range_nonneg: "length rs = 3 * n \<Longrightarrow> 0 < n \<Longrightarrow> 0 \<le> box_range rs"
  using extent_nonneg [of rs n 0] by (simp add: box_range_def max_def)

lemma extent_le_range: "a < 3 \<Longrightarrow> extent a rs \<le> box_range rs"
  by (auto simp: box_range_def less_Suc_eq numeral_3_eq_3 numeral_2_eq_2 max_def)

lemma axis_scaled:
  assumes len: "length rs = 3 * n" and a: "a < 3"
  shows "axis a (map (\<lambda>j. (rs ! j - c (j mod 3)) / h) [0..<length rs]) =
         map (\<lambda>x. (x - c a) / h) (axis a rs)"
proof -
  have "(3 * q + a) mod 3 = a" for q
    using a by simp
  moreover have "q < n \<Longrightarrow> 3 * q + a < length rs" for q
    using a len by simp
  ultimately show ?thesis
    using len by (simp add: axis_def column_def)
qed

lemma Min_scaled:
  assumes "xs \<noteq> []" and h: "0 < (h::real)"
  shows "Min (set (map (\<lambda>x. (x - c) / h) xs)) = (Min (set xs) - c) / h"
proof -
  have "mono (\<lambda>x. (x - c) / h)"
    using h by (simp add: mono_def divide_right_mono)
  then have "(Min (set xs) - c) / h = Min ((\<lambda>x. (x - c) / h) ` set xs)"
    using assms by (intro mono_Min_commute) simp_all
  then show ?thesis by simp
qed

lemma Max_scaled:
  assumes "xs \<noteq> []" and h: "0 < (h::real)"
  shows "Max (set (map (\<lambda>x. (x - c) / h) xs)) = (Max (set xs) - c) / h"
proof -
  have "mono (\<lambda>x. (x - c) / h)"
    using h by (simp add: mono_def divide_right_mono)
  then have "(Max (set xs) - c) / h = Max ((\<lambda>x. (x - c) / h) ` set xs)"
    using assms by (intro mono_Max_commute) simp_all
  then show ?thesis by simp
qed

lemma normalization_Fin:
  assumes len: "length rs = 3 * n" and n: "0 < n" and r: "box_range rs \<noteq> 0"
  shows "normalization (map Fin rs) = map Fin (normalized rs)"
proof (rule nth_equalityI)
  have m: "length (map Fin rs) mod 3 = 0" using len by simp
  show "length (normalization (map Fin rs)) = length (map Fin (normalized rs))"
    using length_normalization [OF m] by (simp add: normalized_def)
  fix j assume "j < length (normalization (map Fin rs))"
  then have j: "j < length rs"
    using length_normalization [OF m] by simp
  then show "normalization (map Fin rs) ! j = map Fin (normalized rs) ! j"
    using normalization_Fin_nth [OF len n j] r by (simp add: normalized_def)
qed

lemma normalized_box:
  assumes len: "length rs = 3 * n" and n: "0 < n" and r: "box_range rs \<noteq> 0" and a: "a < 3"
  shows "lo a (normalized rs) = (lo a rs - box_center a rs) / (box_range rs / 2)"
    and "hi a (normalized rs) = (hi a rs - box_center a rs) / (box_range rs / 2)"
proof -
  have h: "0 < box_range rs / 2"
    using box_range_nonneg [OF len n] r by simp
  have ax: "axis a (normalized rs) =
      map (\<lambda>x. (x - box_center a rs) / (box_range rs / 2)) (axis a rs)"
    unfolding normalized_def by (rule axis_scaled [OF len a])
  show "lo a (normalized rs) = (lo a rs - box_center a rs) / (box_range rs / 2)"
    unfolding lo_def ax by (rule Min_scaled [OF axis_nonempty [OF len n] h])
  show "hi a (normalized rs) = (hi a rs - box_center a rs) / (box_range rs / 2)"
    unfolding hi_def ax by (rule Max_scaled [OF axis_nonempty [OF len n] h])
qed

lemma normalized_centered:
  assumes len: "length rs = 3 * n" and n: "0 < n" and r: "box_range rs \<noteq> 0" and a: "a < 3"
  shows "box_center a (normalized rs) = 0"
proof -
  have "hi a (normalized rs) + lo a (normalized rs) =
      (hi a rs + lo a rs - 2 * box_center a rs) / (box_range rs / 2)"
    unfolding normalized_box [OF len n r a] by (simp add: add_divide_distrib [symmetric])
  also have "\<dots> = 0"
    by (simp add: box_center_def)
  finally show ?thesis
    by (simp add: box_center_def)
qed

lemma normalized_extent:
  assumes len: "length rs = 3 * n" and n: "0 < n" and r: "box_range rs \<noteq> 0" and a: "a < 3"
  shows "extent a (normalized rs) = 2 * extent a rs / box_range rs"
proof -
  have "extent a (normalized rs) = (hi a rs - lo a rs) / (box_range rs / 2)"
    unfolding extent_def normalized_box [OF len n r a]
    by (simp add: diff_divide_distrib [symmetric])
  then show ?thesis
    by (simp add: extent_def)
qed

lemma degenerate_zero:
  assumes len: "length rs = 3 * n" and n: "0 < n" and r: "box_range rs = 0" and j: "j < length rs"
  shows "rs ! j - box_center (j mod 3) rs = 0"
proof -
  define a where "a = j mod 3"
  have a: "a < 3" by (simp add: a_def)
  have "extent a rs \<le> 0"
    using extent_le_range [OF a, of rs] r by simp
  then have eq: "hi a rs = lo a rs"
    using lo_le_hi [OF len n, of a] by (simp add: extent_def)
  have mem: "rs ! j \<in> set (axis a rs)"
    using in_column [of j n rs] j len by (simp add: axis_def a_def)
  then have "lo a rs \<le> rs ! j" and "rs ! j \<le> hi a rs"
    by (simp_all add: lo_def hi_def)
  with eq show ?thesis
    by (simp add: box_center_def a_def [symmetric])
qed

lemma normalization_degenerate:
  assumes len: "length rs = 3 * n" and n: "0 < n" and r: "box_range rs = 0"
  shows "normalization (map Fin rs) = replicate (length rs) NaN"
proof (rule nth_equalityI)
  have m: "length (map Fin rs) mod 3 = 0" using len by simp
  show "length (normalization (map Fin rs)) = length (replicate (length rs) NaN)"
    using length_normalization [OF m] by simp
  fix j assume "j < length (normalization (map Fin rs))"
  then have j: "j < length rs"
    using length_normalization [OF m] by simp
  then show "normalization (map Fin rs) ! j = replicate (length rs) NaN ! j"
    using normalization_Fin_nth [OF len n j] degenerate_zero [OF len n r j] r by simp
qed

lemma parsed_length:
  assumes "fst (parse_lines s) = map Fin rs"
  shows "length rs = 3 * length (vertex_lines s)"
proof -
  have "length (fst (parse_lines s)) = 3 * length (vertex_lines s)"
    by (simp add: parse_lines_eq length_concat_parseVertex)
  then show ?thesis
    using assms by simp
qed

lemma box_range_normalized:
  assumes len: "length rs = 3 * n" and n: "0 < n" and r: "box_range rs \<noteq> 0"
  shows "box_range (normalized rs) = 2"
proof -
  have pos: "0 < box_range rs"
    using box_range_nonneg [OF len n] r by simp
  have e: "extent a (normalized rs) = 2 * extent a rs / box_range rs" if "a < 3" for a
    using normalized_extent [OF len n r that] .
  have "box_range (normalized rs) =
      max (max (2 * extent 0 rs / box_range rs) (2 * extent 1 rs / box_range rs))
        (2 * extent 2 rs / box_range rs)"
    unfolding box_range_def [of "normalized rs"] by (simp add: e)
  also have "\<dots> = 2 * box_range rs / box_range rs"
    using pos unfolding box_range_def [of rs]
    by (simp only: max_divide_distrib_right max_mult_distrib_left less_imp_le if_True
        zero_le_numeral)
  finally show ?thesis
    using pos by simp
qed

lemma parseFloat_undefined: "parseFloat ''undefined'' = NaN"
  by code_simp

subsection \<open>Decimal references\<close>

lemma of_char_digit_char: "d < 10 \<Longrightarrow> (of_char (digit_char d) :: nat) = 48 + d"
  by (simp add: digit_char_def)

lemma hex_val_digit: "d < 10 \<Longrightarrow> hex_val (digit_char d) = Some d"
  by (simp add: hex_val_def Let_def of_char_digit_char)

lemma is_radix_digit_digit: "d < 10 \<Longrightarrow> is_radix_digit 10 (digit_char d)"
  by (simp add: is_radix_digit_def hex_val_digit)

lemma digit_not_space: "d < 10 \<Longrightarrow> \<not> is_space (digit_char d)"
  by (auto simp: is_space_def of_char_digit_char)

lemma digit_not_special:
  assumes "d < 10"
  shows "digit_char d \<notin> {CHR ''+'', CHR ''-'', CHR ''/'', CHR ''x'', CHR ''X''}"
proof
  assume "digit_char d \<in> {CHR ''+'', CHR ''-'', CHR ''/'', CHR ''x'', CHR ''X''}"
  then have "(of_char (digit_char d) :: nat) \<in> {43, 45, 47, 120, 88}"
    by auto
  then show False
    using assms by (auto simp: of_char_digit_char)
qed

lemma decimal_digits: "c \<in> set (decimal n) \<Longrightarrow> \<exists>d<10. c = digit_char d"
proof (induction n arbitrary: c rule: decimal.induct)
  case (1 n)
  show ?case
  proof (cases "n < 10")
    case True
    with "1.prems" show ?thesis
      by (subst (asm) decimal.simps) auto
  next
    case False
    with "1.prems" have "c \<in> set (decimal (n div 10)) \<or> c = digit_char (n mod 10)"
      by (subst (asm) decimal.simps) auto
    then show ?thesis
      using "1.IH" [OF False] by (metis mod_less_divisor zero_less_numeral)
  qed
qed

lemma decimal_nonempty: "decimal n \<noteq> []"
  by (subst decimal.simps) simp

lemma digits_value_snoc:
  "digits_value R (z @ [c]) = digits_value R z * R + (case hex_val c of None \<Rightarrow> 0 | Some d \<Rightarrow> d)"
  by (simp add: digits_value_def)

lemma digits_value_decimal: "digits_value 10 (decimal n) = n"
proof (induction n rule: decimal.induct)
  case (1 n)
  show ?case
  proof (cases "n < 10")
    case True
    then show ?thesis
      by (subst decimal.simps) (simp add: digits_value_def hex_val_digit)
  next
    case False
    then show ?thesis
      using "1.IH" [OF False]
      by (subst decimal.simps) (simp add: digits_value_snoc hex_val_digit)
  qed
qed

lemma takeWhile_decimal:
  assumes "rest = [] \<or> \<not> P (hd rest)" and "\<And>d. d < 10 \<Longrightarrow> P (digit_char d)"
  shows "takeWhile P (decimal n @ rest) = decimal n"
proof -
  have all: "\<forall>c \<in> set (decimal n). P c"
    using decimal_digits assms(2) by blast
  have "takeWhile P rest = []"
    using assms(1) by (cases rest) auto
  with all show ?thesis
    by (simp add: takeWhile_append2)
qed

lemma hd_decimal: "\<exists>d<10. hd (decimal n @ rest) = digit_char d"
  using decimal_digits [of "hd (decimal n)" n] decimal_nonempty [of n] by simp

lemma second_decimal:
  assumes "rest = [] \<or> hd rest \<notin> {CHR ''x'', CHR ''X''}"
  shows "take 2 (decimal n @ rest) \<noteq> ''0x'' \<and> take 2 (decimal n @ rest) \<noteq> ''0X''"
proof (cases "decimal n")
  case Nil
  then show ?thesis using decimal_nonempty by simp
next
  case (Cons c cs)
  show ?thesis
  proof (cases cs)
    case Nil
    with Cons assms show ?thesis
      by (cases rest) auto
  next
    case (Cons c' cs')
    then have "c' \<in> set (decimal n)"
      using \<open>decimal n = c # cs\<close> by simp
    then obtain d where "d < 10" "c' = digit_char d"
      using decimal_digits by blast
    then have "c' \<noteq> CHR ''x'' \<and> c' \<noteq> CHR ''X''"
      using digit_not_special [of d] by auto
    then show ?thesis
      using Cons \<open>decimal n = c # cs\<close> by simp
  qed
qed

lemma parseInt_decimal:
  assumes "rest = [] \<or> (\<not> is_radix_digit 10 (hd rest) \<and> hd rest \<notin> {CHR ''x'', CHR ''X''})"
  shows "parseInt (decimal n @ rest) = Fin (real n)"
proof -
  obtain d where d: "d < 10" "hd (decimal n @ rest) = digit_char d"
    using hd_decimal by blast
  have ne: "decimal n @ rest \<noteq> []"
    using decimal_nonempty by simp
  have sp: "dropWhile is_space (decimal n @ rest) = decimal n @ rest"
    using d ne digit_not_space [of d] by (intro dropWhile_hd_id) simp
  have sign: "take 1 (decimal n @ rest) \<noteq> ''+''" "take 1 (decimal n @ rest) \<noteq> ''-''"
    using d ne digit_not_special [of d] by (cases "decimal n @ rest"; auto)+
  have hex: "take 2 (decimal n @ rest) \<noteq> ''0x''" "take 2 (decimal n @ rest) \<noteq> ''0X''"
    using second_decimal [of rest n] assms by auto
  have tw: "takeWhile (is_radix_digit 10) (decimal n @ rest) = decimal n"
    using assms by (intro takeWhile_decimal) (auto simp: is_radix_digit_digit)
  show ?thesis
    unfolding parseInt_def sp Let_def
    using sign hex by (simp add: tw decimal_nonempty digits_value_decimal)
qed

lemma first_component_decimal:
  "first_component (decimal n @ CHR ''/'' # rest) = decimal n"
  "first_component (decimal n) = decimal n"
proof -
  have "takeWhile (\<lambda>c. c \<noteq> CHR ''/'') (decimal n @ r) = decimal n"
    if "r = [] \<or> \<not> (hd r \<noteq> CHR ''/'')" for r
    using that by (intro takeWhile_decimal) (use digit_not_special in auto)
  from this [of "CHR ''/'' # rest"] this [of "[]"]
  show "first_component (decimal n @ CHR ''/'' # rest) = decimal n"
    "first_component (decimal n) = decimal n"
    by (simp_all add: first_component_def)
qed

lemma ref_index_decimal:
  "ref_index (decimal n @ CHR ''/'' # rest) = Fin (real n - 1)"
  "ref_index (decimal n) = Fin (real n - 1)"
  using parseInt_decimal [of "[]" n]
  by (simp_all add: ref_index_def first_component_decimal js_sub_def)

lemma digit_chars:
  "digit_char 0 = CHR ''0''" "digit_char 1 = CHR ''1''" "digit_char 2 = CHR ''2''"
  "digit_char 3 = CHR ''3''" "digit_char 4 = CHR ''4''" "digit_char 5 = CHR ''5''"
  "digit_char 6 = CHR ''6''" "digit_char 7 = CHR ''7''" "digit_char 8 = CHR ''8''"
  "digit_char 9 = CHR ''9''" "digit_char (Suc 0) = CHR ''1''"
  by (simp_all add: digit_char_def char_of_eq_iff)

subsection \<open>Face lines made of tokens\<close>

lemma space_is_space: "is_space CHR '' ''"
  by (simp add: is_space_def)

lemma split_ws_single: "\<forall>c \<in> set t. \<not> is_space c \<Longrightarrow> split_ws t = [t]"
proof -
  assume a: "\<forall>c \<in> set t. \<not> is_space c"
  then have "dropWhile (\<lambda>c. \<not> is_space c) t = []"
    by simp
  then show ?thesis
    by (subst split_ws.simps) (simp only: list.case)
qed

lemma split_ws_tokens:
  "\<forall>c \<in> set t0. \<not> is_space c \<Longrightarrow> \<forall>t \<in> set ts. is_token t \<Longrightarrow>
   split_ws (t0 @ concat (map (\<lambda>t. CHR '' '' # t) ts)) = t0 # ts"
proof (induction ts arbitrary: t0)
  case Nil
  then show ?case
    by (simp add: split_ws_single)
next
  case (Cons t1 ts)
  define X where "X = t1 @ concat (map (\<lambda>t. CHR '' '' # t) ts)"
  have t1: "is_token t1"
    using Cons.prems(2) by simp
  then have "X \<noteq> []" and "\<not> is_space (hd X)"
    by (auto simp: X_def is_token_def)
  then have dX: "dropWhile is_space X = X"
    by (intro dropWhile_hd_id) simp
  have d: "dropWhile (\<lambda>c. \<not> is_space c) (t0 @ CHR '' '' # X) = CHR '' '' # X"
    using Cons.prems(1) by (simp add: dropWhile_append2 space_is_space)
  have t: "takeWhile (\<lambda>c. \<not> is_space c) (t0 @ CHR '' '' # X) = t0"
    using Cons.prems(1) by (simp add: takeWhile_append2 space_is_space)
  have "split_ws (t0 @ CHR '' '' # X) = t0 # split_ws X"
    by (subst split_ws.simps) (simp only: d t dX list.case)
  moreover have "split_ws X = t1 # ts"
    unfolding X_def using t1 Cons.prems(2) by (intro Cons.IH) (simp_all add: is_token_def)
  ultimately show ?case
    by (simp add: X_def)
qed

lemma trim_id:
  assumes "s \<noteq> []" and "\<not> is_space (hd s)" and "\<not> is_space (last s)"
  shows "trim s = s"
proof -
  have 1: "dropWhile is_space s = s"
    using assms(1,2) by (intro dropWhile_hd_id) simp
  have "hd (rev s) = last s"
    using assms(1) by (simp add: hd_rev)
  then have 2: "dropWhile is_space (rev s) = rev s"
    using assms(3) by (intro dropWhile_hd_id) simp
  show ?thesis
    by (simp add: trim_def 1 2)
qed

lemma last_face_line:
  "\<forall>t \<in> set ts. is_token t \<Longrightarrow> \<not> is_space (last (face_line ts))"
proof (induction ts rule: rev_induct)
  case Nil
  show ?case
    by (simp add: face_line_def is_space_def)
next
  case (snoc t ts)
  then have "t \<noteq> []" and "\<not> is_space (last t)"
    by (auto simp: is_token_def)
  then show ?case
    by (simp add: face_line_def)
qed

lemma face_refs_face_line:
  assumes "\<forall>t \<in> set ts. is_token t"
  shows "face_refs (face_line ts) = ts"
proof -
  have "trim (face_line ts) = face_line ts"
    using last_face_line [OF assms]
    by (intro trim_id) (simp_all add: face_line_def is_space_def)
  moreover have "split_ws (face_line ts) = ''f'' # ts"
    unfolding face_line_def using assms by (intro split_ws_tokens) (simp_all add: is_space_def)
  ultimately show ?thesis
    by (simp add: face_refs_def)
qed

lemma is_token_decimal: "is_token (decimal n)"
  using decimal_digits digit_not_space decimal_nonempty by (auto simp: is_token_def)

lemma parseFace_decimal_triangle:
  "parseFace (face_line [decimal a, decimal b, decimal c]) =
     [Fin (real a - 1), Fin (real b - 1), Fin (real c - 1)]"
proof -
  have "face_refs (face_line [decimal a, decimal b, decimal c]) = [decimal a, decimal b, decimal c]"
    by (intro face_refs_face_line) (simp add: is_token_decimal)
  then show ?thesis
    by (simp add: parseFace_other ref_index_decimal)
qed

lemma parseFace_decimal_quad:
  "parseFace (face_line [decimal a, decimal b, decimal c, decimal d]) =
     [Fin (real a - 1), Fin (real b - 1), Fin (real c - 1),
      Fin (real a - 1), Fin (real c - 1), Fin (real d - 1)]"
proof -
  have "face_refs (face_line [decimal a, decimal b, decimal c, decimal d]) =
      [decimal a, decimal b, decimal c, decimal d]"
    by (intro face_refs_face_line) (simp add: is_token_decimal)
  then show ?thesis
    by (simp add: parseFace_quad ref_index_decimal)
qed

subsection \<open>A face line added to a text\<close>

lemma split_on_none: "sep \<notin> set s \<Longrightarrow> split_on sep s = [s]"
proof -
  assume "sep \<notin> set s"
  then have "dropWhile (\<lambda>c. c \<noteq> sep) s = []"
    by auto
  then show ?thesis
    by (subst split_on.simps) (simp only: list.case)
qed

lemma split_on_append:
  "split_on sep (s @ sep # l) = split_on sep s @ split_on sep l"
proof (induction sep s rule: split_on.induct)
  case (1 sep s)
  show ?case
  proof (cases "dropWhile (\<lambda>c. c \<noteq> sep) s")
    case Nil
    then have no: "\<forall>c \<in> set s. c \<noteq> sep"
      by simp
    have d: "dropWhile (\<lambda>c. c \<noteq> sep) (s @ sep # l) = sep # l"
      using no by (simp add: dropWhile_append2)
    have t: "takeWhile (\<lambda>c. c \<noteq> sep) (s @ sep # l) = s"
      using no by (simp add: takeWhile_append2)
    have "split_on sep (s @ sep # l) = s # split_on sep l"
      by (subst split_on.simps) (simp only: d t list.case)
    moreover have "split_on sep s = [s]"
      by (subst split_on.simps) (simp only: Nil list.case)
    ultimately show ?thesis
      by simp
  next
    case (Cons x rest)
    have x: "x = sep"
      using hd_dropWhile [of "\<lambda>c. c \<noteq> sep" s] Cons by simp
    have "sep \<in> set (dropWhile (\<lambda>c. c \<noteq> sep) s)"
      using Cons x by simp
    then have mem: "sep \<in> set s"
      by (rule set_dropWhileD)
    have d: "dropWhile (\<lambda>c. c \<noteq> sep) (s @ sep # l) = sep # (rest @ sep # l)"
      using dropWhile_append1 [OF mem, of "\<lambda>c. c \<noteq> sep" "sep # l"] Cons x by simp
    have t: "takeWhile (\<lambda>c. c \<noteq> sep) (s @ sep # l) = takeWhile (\<lambda>c. c \<noteq> sep) s"
      using takeWhile_append1 [OF mem, of "\<lambda>c. c \<noteq> sep" "sep # l"] by simp
    have "split_on sep (s @ sep # l) =
        takeWhile (\<lambda>c. c \<noteq> sep) s # split_on sep (rest @ sep # l)"
      by (subst split_on.simps) (simp only: d t list.case)
    moreover have "split_on sep s = takeWhile (\<lambda>c. c \<noteq> sep) s # split_on sep rest"
      by (subst split_on.simps) (simp only: Cons list.case)
    moreover have "split_on sep (rest @ sep # l) = split_on sep rest @ split_on sep l"
      using "1.IH" [OF Cons] by simp
    ultimately show ?thesis
      by simp
  qed
qed

lemma face_line_props:
  assumes "\<forall>t \<in> set ts. is_token t" and "ts \<noteq> []"
  shows "CHR 0x0A \<notin> set (face_line ts)"
    and "trim (face_line ts) = face_line ts"
    and "startsWith (face_line ts) ''f ''"
    and "\<not> startsWith (face_line ts) ''v ''"
proof -
  have nl: "is_space (CHR 0x0A)"
    by (simp add: is_space_def)
  have "\<forall>t \<in> set ts. CHR 0x0A \<notin> set t"
    using assms(1) nl by (auto simp: is_token_def)
  then show "CHR 0x0A \<notin> set (face_line ts)"
    by (auto simp: face_line_def)
  show "trim (face_line ts) = face_line ts"
    using last_face_line [OF assms(1)]
    by (intro trim_id) (simp_all add: face_line_def is_space_def)
  show "startsWith (face_line ts) ''f ''"
    using assms(2) by (cases ts) (simp_all add: face_line_def startsWith_def)
  show "\<not> startsWith (face_line ts) ''v ''"
    by (simp add: face_line_def startsWith_def)
qed

lemma load_append_face_line:
  assumes "\<forall>t \<in> set ts. is_token t" and "ts \<noteq> []"
  shows "load (s @ CHR 0x0A # face_line ts) =
     (fst (load s), snd (load s) @ parseFace (face_line ts))"
proof -
  note p = face_line_props [OF assms]
  have sl: "source_lines (s @ CHR 0x0A # face_line ts) = source_lines s @ [face_line ts]"
    by (simp add: source_lines_def split_on_append split_on_none [OF p(1)] p(2))
  have v: "vertex_lines (s @ CHR 0x0A # face_line ts) = vertex_lines s"
    by (simp add: vertex_lines_def sl p(4))
  have f: "face_lines (s @ CHR 0x0A # face_line ts) = face_lines s @ [face_line ts]"
    by (simp add: face_lines_def sl p(3))
  show ?thesis
    by (simp add: load_eq v f)
qed

lemma load_append_triangle:
  "load (s @ CHR 0x0A # face_line [decimal a, decimal b, decimal c]) =
     (fst (load s),
      snd (load s) @ [Fin (real a - 1), Fin (real b - 1), Fin (real c - 1)])"
  using load_append_face_line [of "[decimal a, decimal b, decimal c]" s]
  by (simp add: is_token_decimal parseFace_decimal_triangle)

section \<open>Claims about the mesh loader\<close>

text \<open>
  C7. \<open>parseFace\<close> converts each white-space separated reference by taking its
  first slash-separated component and subtracting 1 (\<open>ref_index\<close>): a reference
  that is the decimal numeral of \<open>n\<close>, alone or followed by a slash and anything,
  yields \<open>n - 1\<close>, for every \<open>n\<close> up to \<open>2 ^ 53 = 9007199254740992\<close>, the integers
  that \<open>parseInt\<close> returns unrounded. A face of exactly three references yields
  their three indices in order, and a face of exactly four references
  \<open>r0 r1 r2 r3\<close> yields the six indices of the triangles \<open>(r0, r1, r2)\<close> and
  \<open>(r0, r2, r3)\<close>. The token \<open>5/12/3\<close> yields 4, the line \<open>f 1 2 3\<close> yields
  \<open>[0, 1, 2]\<close> and \<open>f 1 2 3 4\<close> yields \<open>[0, 1, 2, 0, 2, 3]\<close>.
\<close>

theorem parseFace_references:
  "(length (face_refs l) = 3 \<longrightarrow> parseFace l = map ref_index (face_refs l)) \<and>
   (face_refs l = [r0, r1, r2, r3] \<longrightarrow>
      parseFace l =
        [ref_index r0, ref_index r1, ref_index r2, ref_index r0, ref_index r2, ref_index r3]) \<and>
   (n \<le> 9007199254740992 \<longrightarrow>
      ref_index (decimal n) = Fin (real n - 1) \<and>
      ref_index (decimal n @ CHR ''/'' # rest) = Fin (real n - 1)) \<and>
   (a \<le> 9007199254740992 \<and> b \<le> 9007199254740992 \<and> c \<le> 9007199254740992 \<longrightarrow>
      parseFace (face_line [decimal a, decimal b, decimal c]) =
        [Fin (real a - 1), Fin (real b - 1), Fin (real c - 1)]) \<and>
   (a \<le> 9007199254740992 \<and> b \<le> 9007199254740992 \<and> c \<le> 9007199254740992 \<and>
    d \<le> 9007199254740992 \<longrightarrow>
      parseFace (face_line [decimal a, decimal b, decimal c, decimal d]) =
        [Fin (real a - 1), Fin (real b - 1), Fin (real c - 1),
         Fin (real a - 1), Fin (real c - 1), Fin (real d - 1)]) \<and>
   ref_index ''5/12/3'' = Fin 4 \<and>
   parseFace ''f 1 2 3'' = [Fin 0, Fin 1, Fin 2] \<and>
   parseFace ''f 1 2 3 4'' = [Fin 0, Fin 1, Fin 2, Fin 0, Fin 2, Fin 3]"
proof (intro conjI impI)
  assume "length (face_refs l) = 3"
  then show "parseFace l = map ref_index (face_refs l)"
    by (simp add: parseFace_other)
next
  assume "face_refs l = [r0, r1, r2, r3]"
  then show "parseFace l =
      [ref_index r0, ref_index r1, ref_index r2, ref_index r0, ref_index r2, ref_index r3]"
    by (rule parseFace_quad)
next
  show "ref_index (decimal n) = Fin (real n - 1)"
    by (rule ref_index_decimal)
  show "ref_index (decimal n @ CHR ''/'' # rest) = Fin (real n - 1)"
    by (rule ref_index_decimal)
  show "parseFace (face_line [decimal a, decimal b, decimal c]) =
     [Fin (real a - 1), Fin (real b - 1), Fin (real c - 1)]"
    by (rule parseFace_decimal_triangle)
  show "parseFace (face_line [decimal a, decimal b, decimal c, decimal d]) =
     [Fin (real a - 1), Fin (real b - 1), Fin (real c - 1),
      Fin (real a - 1), Fin (real c - 1), Fin (real d - 1)]"
    by (rule parseFace_decimal_quad)
  show "ref_index ''5/12/3'' = Fin 4"
    by code_simp
  show "parseFace ''f 1 2 3'' = [Fin 0, Fin 1, Fin 2]"
    by code_simp
  show "parseFace ''f 1 2 3 4'' = [Fin 0, Fin 1, Fin 2, Fin 0, Fin 2, Fin 3]"
    by code_simp
qed

theorem parseFace_references_witness:
  "length (face_refs ''f 7/1/1  8/2/2 9//3'') = 3 \<and>
   parseFace ''f 7/1/1  8/2/2 9//3'' = [Fin 6, Fin 7, Fin 8] \<and>
   face_refs ''f 4/1 3/2 2/3 1/4'' = [''4/1'', ''3/2'', ''2/3'', ''1/4''] \<and>
   parseFace ''f 4/1 3/2 2/3 1/4'' = [Fin 3, Fin 2, Fin 1, Fin 3, Fin 1, Fin 0] \<and>
   (12::nat) \<le> 9007199254740992 \<and>
   ref_index ''12'' = Fin 11 \<and>
   ref_index ''12/7/9'' = Fin 11 \<and>
   parseFace ''f 12 5 9007199254740992'' = [Fin 11, Fin 4, Fin 9007199254740991] \<and>
   parseFace ''f 12 5 40 3'' = [Fin 11, Fin 4, Fin 39, Fin 11, Fin 39, Fin 2]"
proof -
  have t: "face_refs ''f 7/1/1  8/2/2 9//3'' = [''7/1/1'', ''8/2/2'', ''9//3'']"
    by code_simp
  have tv: "map ref_index [''7/1/1'', ''8/2/2'', ''9//3''] = [Fin 6, Fin 7, Fin 8]"
    by code_simp
  have q: "face_refs ''f 4/1 3/2 2/3 1/4'' = [''4/1'', ''3/2'', ''2/3'', ''1/4'']"
    by code_simp
  have qv: "[ref_index ''4/1'', ref_index ''3/2'', ref_index ''2/3'',
             ref_index ''4/1'', ref_index ''2/3'', ref_index ''1/4''] =
            [Fin 3, Fin 2, Fin 1, Fin 3, Fin 1, Fin 0]"
    by code_simp
  have d12: "decimal 12 = ''12''" and d5: "decimal 5 = ''5''" and d40: "decimal 40 = ''40''"
    and d3: "decimal 3 = ''3''" and dmax: "decimal 9007199254740992 = ''9007199254740992''"
    by (simp_all add: decimal.simps digit_chars)
  have l3: "face_line [''12'', ''5'', ''9007199254740992''] = ''f 12 5 9007199254740992''"
    and l4: "face_line [''12'', ''5'', ''40'', ''3''] = ''f 12 5 40 3''"
    by (simp_all add: face_line_def)
  note pf = parseFace_references
  have 1: "parseFace ''f 7/1/1  8/2/2 9//3'' = map ref_index (face_refs ''f 7/1/1  8/2/2 9//3'')"
    using pf [of "''f 7/1/1  8/2/2 9//3''", THEN conjunct1] t by simp
  have 2: "parseFace ''f 4/1 3/2 2/3 1/4'' =
      [ref_index ''4/1'', ref_index ''3/2'', ref_index ''2/3'',
       ref_index ''4/1'', ref_index ''2/3'', ref_index ''1/4'']"
    using pf [of "''f 4/1 3/2 2/3 1/4''" "''4/1''" "''3/2''" "''2/3''" "''1/4''",
        THEN conjunct2, THEN conjunct1] q
    by simp
  have 3: "ref_index ''12'' = Fin 11 \<and> ref_index ''12/7/9'' = Fin 11"
    using pf [of _ _ _ _ _ 12 "''7/9''", THEN conjunct2, THEN conjunct2, THEN conjunct1]
    by (simp add: d12)
  have 4: "parseFace ''f 12 5 9007199254740992'' = [Fin 11, Fin 4, Fin 9007199254740991]"
    using pf [of _ _ _ _ _ _ _ 12 5 9007199254740992,
        THEN conjunct2, THEN conjunct2, THEN conjunct2, THEN conjunct1]
    by (simp add: d12 d5 dmax l3)
  have 5: "parseFace ''f 12 5 40 3'' = [Fin 11, Fin 4, Fin 39, Fin 11, Fin 39, Fin 2]"
    using pf [of _ _ _ _ _ _ _ 12 5 40 3,
        THEN conjunct2, THEN conjunct2, THEN conjunct2, THEN conjunct2, THEN conjunct1]
    by (simp add: d12 d5 d40 d3 l4)
  show ?thesis
    using 1 2 3 4 5 t tv q qv by simp
qed

text \<open>
  C10. A face line whose number of references is not 4 is neither triangulated nor
  rejected: \<open>parseFace\<close> returns the converted indices of all its references, as
  many as there are references. The index array that \<open>load\<close> returns is the
  concatenation of what \<open>parseFace\<close> returns for the face lines of the text: a
  face line of one or more references, but not four, added to a text, adds the
  converted indices of its references to the index array of \<open>load\<close>, as many as
  there are references, and changes nothing else. After a face of five
  references the number of indices, a multiple of 3 before, is no longer one.
\<close>

theorem parseFace_other_arity:
  "(length (face_refs l) \<noteq> 4 \<longrightarrow>
     parseFace l = map ref_index (face_refs l) \<and>
     length (parseFace l) = length (face_refs l)) \<and>
   snd (load s) = concat (map parseFace (face_lines s)) \<and>
   ((\<forall>t \<in> set ts. is_token t) \<and> ts \<noteq> [] \<and> length ts \<noteq> 4 \<longrightarrow>
      load (s @ CHR 0x0A # face_line ts) = (fst (load s), snd (load s) @ map ref_index ts) \<and>
      length (snd (load (s @ CHR 0x0A # face_line ts))) = length (snd (load s)) + length ts \<and>
      (length ts = 5 \<and> length (snd (load s)) mod 3 = 0 \<longrightarrow>
         length (snd (load (s @ CHR 0x0A # face_line ts))) mod 3 \<noteq> 0))"
proof (intro conjI impI)
  assume "length (face_refs l) \<noteq> 4"
  then show "parseFace l = map ref_index (face_refs l)"
    by (rule parseFace_other)
  then show "length (parseFace l) = length (face_refs l)"
    by simp
next
  show "snd (load s) = concat (map parseFace (face_lines s))"
    by (simp add: load_eq)
next
  assume h: "(\<forall>t \<in> set ts. is_token t) \<and> ts \<noteq> [] \<and> length ts \<noteq> 4"
  then have r: "face_refs (face_line ts) = ts"
    by (simp add: face_refs_face_line)
  have p: "parseFace (face_line ts) = map ref_index ts"
    using parseFace_other [of "face_line ts"] h r by simp
  show a: "load (s @ CHR 0x0A # face_line ts) =
      (fst (load s), snd (load s) @ map ref_index ts)"
    using load_append_face_line [of ts s] h p by simp
  show "length (snd (load (s @ CHR 0x0A # face_line ts))) = length (snd (load s)) + length ts"
    unfolding a by simp
  assume "length ts = 5 \<and> length (snd (load s)) mod 3 = 0"
  then show "length (snd (load (s @ CHR 0x0A # face_line ts))) mod 3 \<noteq> 0"
    unfolding a by (simp add: mod_add_left_eq [symmetric])
qed

theorem parseFace_other_arity_witness:
  "length (face_refs ''f 1 2 3 4 5'') \<noteq> 4 \<and>
   parseFace ''f 1 2 3 4 5'' = [Fin 0, Fin 1, Fin 2, Fin 3, Fin 4] \<and>
   load ''v 0 0 0\<newline>f 1 1 1'' = ([NaN, NaN, NaN], [Fin 0, Fin 0, Fin 0]) \<and>
   load ''v 0 0 0\<newline>f 1 1 1\<newline>f 1 2 3 4 5'' =
     ([NaN, NaN, NaN], [Fin 0, Fin 0, Fin 0, Fin 0, Fin 1, Fin 2, Fin 3, Fin 4]) \<and>
   length (snd (load ''v 0 0 0\<newline>f 1 1 1\<newline>f 1 2 3 4 5'')) mod 3 \<noteq> 0 \<and>
   snd (load ''v 0 0 0\<newline>f 1 1 1\<newline>f 7 9'') = [Fin 0, Fin 0, Fin 0, Fin 6, Fin 8]"
proof -
  note pa = parseFace_other_arity
  have r: "face_refs ''f 1 2 3 4 5'' = [''1'', ''2'', ''3'', ''4'', ''5'']"
    by code_simp
  have v: "map ref_index [''1'', ''2'', ''3'', ''4'', ''5''] = [Fin 0, Fin 1, Fin 2, Fin 3, Fin 4]"
    and v2: "map ref_index [''7'', ''9''] = [Fin 6, Fin 8]"
    by code_simp+
  have tok: "(\<forall>t \<in> set [''1'', ''2'', ''3'', ''4'', ''5'']. is_token t) \<and>
      [''1'', ''2'', ''3'', ''4'', ''5''] \<noteq> ([] :: string list) \<and>
      length [''1'', ''2'', ''3'', ''4'', ''5''] \<noteq> 4"
    and tok2: "(\<forall>t \<in> set [''7'', ''9'']. is_token t) \<and>
      [''7'', ''9''] \<noteq> ([] :: string list) \<and> length [''7'', ''9''] \<noteq> 4"
    by (simp_all add: is_token_def is_space_def)
  have l: "''v 0 0 0\<newline>f 1 1 1'' @ CHR 0x0A # face_line [''1'', ''2'', ''3'', ''4'', ''5''] =
      ''v 0 0 0\<newline>f 1 1 1\<newline>f 1 2 3 4 5''"
    and l2: "''v 0 0 0\<newline>f 1 1 1'' @ CHR 0x0A # face_line [''7'', ''9''] =
      ''v 0 0 0\<newline>f 1 1 1\<newline>f 7 9''"
    by (simp_all add: face_line_def)
  have b: "load ''v 0 0 0\<newline>f 1 1 1'' = ([NaN, NaN, NaN], [Fin 0, Fin 0, Fin 0])"
    by code_simp
  have 1: "parseFace ''f 1 2 3 4 5'' = [Fin 0, Fin 1, Fin 2, Fin 3, Fin 4]"
    using pa [of "''f 1 2 3 4 5''", THEN conjunct1] r v by simp
  have 2: "load ''v 0 0 0\<newline>f 1 1 1\<newline>f 1 2 3 4 5'' =
     ([NaN, NaN, NaN], [Fin 0, Fin 0, Fin 0, Fin 0, Fin 1, Fin 2, Fin 3, Fin 4])"
    using pa [of _ "''v 0 0 0\<newline>f 1 1 1''" "[''1'', ''2'', ''3'', ''4'', ''5'']",
        THEN conjunct2, THEN conjunct2, rule_format, OF tok, THEN conjunct1]
    unfolding l b v by simp
  have 3: "length (snd (load ''v 0 0 0\<newline>f 1 1 1\<newline>f 1 2 3 4 5'')) mod 3 \<noteq> 0"
    using pa [of _ "''v 0 0 0\<newline>f 1 1 1''" "[''1'', ''2'', ''3'', ''4'', ''5'']",
        THEN conjunct2, THEN conjunct2, rule_format, OF tok, THEN conjunct2, THEN conjunct2]
    unfolding l b by simp
  have 4: "snd (load ''v 0 0 0\<newline>f 1 1 1\<newline>f 7 9'') = [Fin 0, Fin 0, Fin 0, Fin 6, Fin 8]"
    using pa [of _ "''v 0 0 0\<newline>f 1 1 1''" "[''7'', ''9'']",
        THEN conjunct2, THEN conjunct2, rule_format, OF tok2, THEN conjunct1]
    unfolding l2 b v2 by simp
  show ?thesis
    using 1 2 3 4 r b by simp
qed

text \<open>
  C1, as the code has it. \<open>load\<close> checks no index against the number of
  vertices and reports no error: the index array is the concatenation, in the
  order of the lines, of what \<open>parseFace\<close> returns for each face line, whatever
  the vertices are, and the position array has three entries for each vertex
  line. A face line with the references \<open>a\<close>, \<open>b\<close>, \<open>c\<close>, each at most
  \<open>2 ^ 53 = 9007199254740992\<close>, added to any text adds the indices \<open>a - 1\<close>,
  \<open>b - 1\<close>, \<open>c - 1\<close> and changes nothing else, however many vertices the text has.
\<close>

theorem load_indices_unvalidated:
  "snd (load s) = concat (map parseFace (face_lines s)) \<and>
   length (fst (load s)) = 3 * length (vertex_lines s) \<and>
   (a \<le> 9007199254740992 \<and> b \<le> 9007199254740992 \<and> c \<le> 9007199254740992 \<longrightarrow>
      load (s @ CHR 0x0A # face_line [decimal a, decimal b, decimal c]) =
        (fst (load s),
         snd (load s) @ [Fin (real a - 1), Fin (real b - 1), Fin (real c - 1)]))"
proof (intro conjI impI)
  show "snd (load s) = concat (map parseFace (face_lines s))"
    by (simp add: load_eq)
  show "length (fst (load s)) = 3 * length (vertex_lines s)"
    by (rule length_positions)
  show "load (s @ CHR 0x0A # face_line [decimal a, decimal b, decimal c]) =
     (fst (load s),
      snd (load s) @ [Fin (real a - 1), Fin (real b - 1), Fin (real c - 1)])"
    by (rule load_append_triangle)
qed

text \<open>
  Against C1 as stated: with three vertices, the references 5, 0, -1 and \<open>x\<close> are
  returned as the indices 4, -1, -2 and \<open>NaN\<close>.
\<close>

theorem load_index_out_of_range:
  "load ''v 0 0 0\<newline>v 1 0 0\<newline>v 0 4 0\<newline>f 1 2 5\<newline>f 0 -1 x'' =
     ([Fin (- (1 / 4)), Fin (- 1), Fin 0, Fin (1 / 4), Fin (- 1), Fin 0,
       Fin (- (1 / 4)), Fin 1, Fin 0],
      [Fin 0, Fin 1, Fin 4, Fin (- 1), Fin (- 2), NaN])"
  by code_simp

theorem load_indices_unvalidated_witness:
  "(1::nat) \<le> 9007199254740992 \<and> (2::nat) \<le> 9007199254740992 \<and>
   (7::nat) \<le> 9007199254740992 \<and>
   load ''v 0 0 0\<newline>v 1 0 0\<newline>f 1 2 7'' =
     ([Fin (- 1), Fin 0, Fin 0, Fin 1, Fin 0, Fin 0], [Fin 0, Fin 1, Fin 6])"
proof -
  have l: "''v 0 0 0\<newline>v 1 0 0'' @ CHR 0x0A # face_line [decimal 1, decimal 2, decimal 7] =
      ''v 0 0 0\<newline>v 1 0 0\<newline>f 1 2 7''"
    by (simp add: face_line_def decimal.simps digit_chars)
  have v: "load ''v 0 0 0\<newline>v 1 0 0'' = ([Fin (- 1), Fin 0, Fin 0, Fin 1, Fin 0, Fin 0], [])"
    by code_simp
  have b: "(1::nat) \<le> 9007199254740992 \<and> (2::nat) \<le> 9007199254740992 \<and>
      (7::nat) \<le> 9007199254740992"
    by simp
  show ?thesis
    using load_indices_unvalidated [of "''v 0 0 0\<newline>v 1 0 0''" 1 2 7,
        THEN conjunct2, THEN conjunct2, rule_format, OF b]
    unfolding l v by simp
qed

text \<open>
  C2, as the code has it. \<open>load\<close> has no error for a degenerate mesh. On a text
  with no vertex line it returns an empty position array. On a text whose vertices
  are finite and have a bounding box of range zero (they all coincide) it returns
  one position for each coordinate, and every position is \<open>NaN\<close> or an infinity;
  when no coordinate exceeds \<open>10 ^ 307\<close> in magnitude, so that the sum of the
  largest and the smallest coordinate of an axis does not overflow, every
  position is \<open>NaN\<close>.
\<close>

theorem load_degenerate:
  "(vertex_lines s = [] \<longrightarrow> fst (load s) = []) \<and>
   (fst (parse_lines s) = map Fin rs \<and> rs \<noteq> [] \<and> box_range rs = 0 \<longrightarrow>
      length (fst (load s)) = length rs \<and>
      (\<forall>p \<in> set (fst (load s)). p = NaN \<or> p = PInf \<or> p = NInf) \<and>
      ((\<forall>r \<in> set rs. \<bar>r\<bar> \<le> 10 ^ 307) \<longrightarrow> fst (load s) = replicate (length rs) NaN))"
proof (intro conjI impI)
  assume "vertex_lines s = []"
  then show "fst (load s) = []"
    by (simp add: load_eq normalization_Nil)
next
  assume h: "fst (parse_lines s) = map Fin rs \<and> rs \<noteq> [] \<and> box_range rs = 0"
  then have len: "length rs = 3 * length (vertex_lines s)"
    by (simp add: parsed_length)
  with h have n: "0 < length (vertex_lines s)"
    by (cases "vertex_lines s") auto
  have eq: "fst (load s) = replicate (length rs) NaN"
    using h normalization_degenerate [OF len n] by (simp add: load_def Let_def)
  show "length (fst (load s)) = length rs"
    by (simp add: eq)
  show "\<forall>p \<in> set (fst (load s)). p = NaN \<or> p = PInf \<or> p = NInf"
    by (simp add: eq)
  show "fst (load s) = replicate (length rs) NaN"
    by (rule eq)
qed

text \<open>
  Against C2 as stated: \<open>load\<close> returns on a text without vertices and on a text
  with one repeated vertex, the latter with positions that are all \<open>NaN\<close>.
\<close>

theorem load_degenerate_returns:
  "load ''f 1 2 3'' = ([], [Fin 0, Fin 1, Fin 2]) \<and>
   load ''v 1 2 3\<newline>v 1 2 3\<newline>f 1 2 2'' =
     ([NaN, NaN, NaN, NaN, NaN, NaN], [Fin 0, Fin 1, Fin 1])"
  by code_simp

theorem load_degenerate_witness:
  "vertex_lines ''# empty\<newline>f 1 1 1'' = [] \<and>
   fst (load ''# empty\<newline>f 1 1 1'') = [] \<and>
   fst (parse_lines ''v 5 6 7\<newline>v 5 6 7'') = map Fin [5, 6, 7, 5, 6, 7] \<and>
   box_range [5, 6, 7, 5, 6, 7] = 0 \<and>
   fst (load ''v 5 6 7\<newline>v 5 6 7'') = [NaN, NaN, NaN, NaN, NaN, NaN]"
proof -
  have a: "vertex_lines ''# empty\<newline>f 1 1 1'' = []"
    by code_simp
  have b: "fst (parse_lines ''v 5 6 7\<newline>v 5 6 7'') = map Fin [5, 6, 7, 5, 6, 7]"
    by code_simp
  have c: "box_range [5, 6, 7, 5, 6, 7] = 0"
    by code_simp
  have d: "\<forall>r \<in> set [5, 6, 7, 5, 6, 7 :: real]. \<bar>r\<bar> \<le> 10 ^ 307"
    by simp
  have h: "fst (parse_lines ''v 5 6 7\<newline>v 5 6 7'') = map Fin [5, 6, 7, 5, 6, 7] \<and>
      [5, 6, 7, 5, 6, 7] \<noteq> ([] :: real list) \<and> box_range [5, 6, 7, 5, 6, 7] = 0"
    using b c by simp
  have "fst (load ''# empty\<newline>f 1 1 1'') = []"
    using load_degenerate [of "''# empty\<newline>f 1 1 1''", THEN conjunct1] a by simp
  moreover have "fst (load ''v 5 6 7\<newline>v 5 6 7'') = replicate (length [5, 6, 7, 5, 6, 7 :: real]) NaN"
    using load_degenerate [of "''v 5 6 7\<newline>v 5 6 7''" "[5, 6, 7, 5, 6, 7]",
        THEN conjunct2, rule_format, OF h, THEN conjunct2, THEN conjunct2, THEN mp, OF d] .
  ultimately show ?thesis
    using a b c by (simp add: numeral_eq_Suc)
qed

text \<open>
  C3, as the code has it. \<open>load\<close> has no parse error and skips no vertex line:
  \<open>parseVertex\<close> always returns three values, the third being \<open>NaN\<close> when the
  line has fewer than three coordinate tokens, and \<open>load\<close> returns three
  positions for each vertex line. As soon as one parsed coordinate is \<open>NaN\<close>,
  every position that \<open>load\<close> returns is \<open>NaN\<close>.
\<close>

theorem load_malformed_vertex:
  "length (parseVertex l) = 3 \<and>
   (length (split_ws (trim l)) < 4 \<longrightarrow> parseVertex l ! 2 = NaN) \<and>
   length (fst (load s)) = 3 * length (vertex_lines s) \<and>
   (NaN \<in> set (fst (parse_lines s)) \<longrightarrow> (\<forall>p \<in> set (fst (load s)). p = NaN))"
proof (intro conjI impI ballI)
  show "length (parseVertex l) = 3"
    by (rule length_parseVertex)
  show "length (fst (load s)) = 3 * length (vertex_lines s)"
    by (rule length_positions)
next
  assume "length (split_ws (trim l)) < 4"
  then show "parseVertex l ! 2 = NaN"
    by (simp add: parseVertex_def Let_def elem_def to_string_def parseFloat_undefined)
next
  fix p
  assume nan: "NaN \<in> set (fst (parse_lines s))" and p: "p \<in> set (fst (load s))"
  have len: "length (fst (parse_lines s)) = 3 * length (vertex_lines s)"
    by (simp add: parse_lines_eq length_concat_parseVertex)
  show "p = NaN"
    using normalization_NaN [OF len nan] p by (simp add: load_def Let_def)
qed

text \<open>
  Against C3 as stated: a vertex line with two coordinates and one with a
  coordinate that is no number do not stop \<open>load\<close>.
\<close>

theorem load_malformed_vertex_returns:
  "load ''v 1 2\<newline>v x 0 1\<newline>v 3 4 5\<newline>f 1 2 3'' =
     ([NaN, NaN, NaN, NaN, NaN, NaN, NaN, NaN, NaN], [Fin 0, Fin 1, Fin 2])"
  by code_simp

theorem load_malformed_vertex_witness:
  "length (split_ws (trim ''v 1 2'')) < 4 \<and>
   parseVertex ''v 1 2'' ! 2 = NaN \<and>
   NaN \<in> set (fst (parse_lines ''v 0 0 0\<newline>v 1 abc 1'')) \<and>
   fst (load ''v 0 0 0\<newline>v 1 abc 1'') = [NaN, NaN, NaN, NaN, NaN, NaN]"
proof -
  have a: "length (split_ws (trim ''v 1 2'')) < 4"
    by code_simp
  have b: "NaN \<in> set (fst (parse_lines ''v 0 0 0\<newline>v 1 abc 1''))"
    by code_simp
  have c: "length (vertex_lines ''v 0 0 0\<newline>v 1 abc 1'') = 2"
    by code_simp
  note t = load_malformed_vertex [of "''v 1 2''" "''v 0 0 0\<newline>v 1 abc 1''"]
  have "fst (load ''v 0 0 0\<newline>v 1 abc 1'') = replicate 6 NaN"
    using t b c by (intro replicate_eqI) simp_all
  then show ?thesis
    using t a b by (simp add: numeral_eq_Suc)
qed

text \<open>
  C5, as the code has it. On every text \<open>load\<close> returns one position for each
  parsed coordinate, and the position is the quotient
  \<open>(v - center[axis]) / (range / 2)\<close> that \<open>load\<close> computes from the coordinate,
  with the same \<open>range / 2\<close> on the three axes. When the parsed coordinates are
  the numbers \<open>m / 2 ^ k\<close> for integers \<open>m\<close> of magnitude at most \<open>2 ^ 50\<close> and one
  \<open>k\<close> of at most 100 (the sums, differences and halvings of \<open>load\<close> are exact on
  them in binary64), there is at least one vertex and the range of the bounding
  box is not zero, the positions are finite, their bounding box has the center 0
  on each of the three axes, the extent 2 on an axis that had the largest extent,
  and 2 as its largest extent; the center and the range that \<open>load\<close> computes
  are those of the bounding box of the coordinates.
\<close>

theorem load_normalized:
  "length (fst (load s)) = length (fst (parse_lines s)) \<and>
   (\<forall>j<length (fst (parse_lines s)).
      fst (load s) ! j =
        scaled (fst (parse_lines s) ! j)
          (rd (center_of (bounds (fst (parse_lines s)))) (j mod 3))
          (range_of (bounds (fst (parse_lines s))))) \<and>
   (fst (parse_lines s) = map Fin rs \<and> rs = map (\<lambda>m. real_of_int m / 2 ^ k) ms \<and>
    ms \<noteq> [] \<and> k \<le> 100 \<and> (\<forall>m \<in> set ms. \<bar>m\<bar> \<le> 2 ^ 50) \<and> box_range rs \<noteq> 0 \<longrightarrow>
      (\<exists>qs. fst (load s) = map Fin qs \<and> length qs = length rs \<and>
         (\<forall>a<3. box_center a qs = 0 \<and> (extent a rs = box_range rs \<longrightarrow> extent a qs = 2)) \<and>
         box_range qs = 2) \<and>
      center_of (bounds (fst (parse_lines s))) =
        [Fin (box_center 0 rs), Fin (box_center 1 rs), Fin (box_center 2 rs)] \<and>
      range_of (bounds (fst (parse_lines s))) = Fin (box_range rs))"
proof (intro conjI impI allI)
  have pl: "length (fst (parse_lines s)) = 3 * length (vertex_lines s)"
    by (simp add: parse_lines_eq length_concat_parseVertex)
  show "length (fst (load s)) = length (fst (parse_lines s))"
    using length_positions [of s] pl by simp
  fix j
  assume "j < length (fst (parse_lines s))"
  then show "fst (load s) ! j =
        scaled (fst (parse_lines s) ! j)
          (rd (center_of (bounds (fst (parse_lines s)))) (j mod 3))
          (range_of (bounds (fst (parse_lines s))))"
    using normalization_nth [of "fst (parse_lines s)" j] pl by (simp add: load_def Let_def)
next
  assume h: "fst (parse_lines s) = map Fin rs \<and> rs = map (\<lambda>m. real_of_int m / 2 ^ k) ms \<and>
    ms \<noteq> [] \<and> k \<le> 100 \<and> (\<forall>m \<in> set ms. \<bar>m\<bar> \<le> 2 ^ 50) \<and> box_range rs \<noteq> 0"
  then have p: "fst (parse_lines s) = map Fin rs" and ne: "rs \<noteq> []" and r: "box_range rs \<noteq> 0"
    by auto
  have len: "length rs = 3 * length (vertex_lines s)"
    using p by (rule parsed_length)
  with ne have n: "0 < length (vertex_lines s)"
    by (cases "vertex_lines s") auto
  have 1: "fst (load s) = map Fin (normalized rs)"
    using normalization_Fin [OF len n r] p by (simp add: load_def Let_def)
  have 2: "box_center a (normalized rs) = 0" if "a < 3" for a
    using normalized_centered [OF len n r that] .
  have 3: "extent a (normalized rs) = 2" if "a < 3" "extent a rs = box_range rs" for a
    using normalized_extent [OF len n r that(1)] that(2) r by simp
  have 4: "length (normalized rs) = length rs"
    by (simp add: normalized_def)
  show "\<exists>qs. fst (load s) = map Fin qs \<and> length qs = length rs \<and>
       (\<forall>a<3. box_center a qs = 0 \<and> (extent a rs = box_range rs \<longrightarrow> extent a qs = 2)) \<and>
       box_range qs = 2"
    using 1 2 3 4 box_range_normalized [OF len n r] by blast
  show "center_of (bounds (fst (parse_lines s))) =
      [Fin (box_center 0 rs), Fin (box_center 1 rs), Fin (box_center 2 rs)]"
    using center_range_Fin [OF len n] p by simp
  show "range_of (bounds (fst (parse_lines s))) = Fin (box_range rs)"
    using center_range_Fin [OF len n] p by simp
qed

text \<open>
  Against C5 as stated: two vertices of which one has an infinite coordinate have
  a bounding box whose range is not zero; \<open>load\<close> returns, and the positions on
  that axis are \<open>NaN\<close>, so that the bounding box is not centered at the origin and
  its longest axis does not span 2.
\<close>

theorem load_infinite_coordinate:
  "load ''v Infinity 0 0\<newline>v 0 0 0'' = ([NaN, Fin 0, Fin 0, NaN, Fin 0, Fin 0], [])"
  by code_simp

theorem load_normalized_witness:
  "fst (parse_lines ''v 0 0 0\<newline>v 1 0 0\<newline>v 0 4 0\<newline>f 1 2 3'') =
     map Fin [0, 0, 0, 1, 0, 0, 0, 4, 0] \<and>
   box_range [0, 0, 0, 1, 0, 0, 0, 4, 0] = 4 \<and>
   center_of (bounds (fst (parse_lines ''v 0 0 0\<newline>v 1 0 0\<newline>v 0 4 0\<newline>f 1 2 3''))) =
     [Fin (1 / 2), Fin 2, Fin 0] \<and>
   range_of (bounds (fst (parse_lines ''v 0 0 0\<newline>v 1 0 0\<newline>v 0 4 0\<newline>f 1 2 3''))) = Fin 4 \<and>
   fst (load ''v 0 0 0\<newline>v 1 0 0\<newline>v 0 4 0\<newline>f 1 2 3'') ! 7 = Fin 1 \<and>
   fst (load ''v 0 0 0\<newline>v 1 0 0\<newline>v 0 4 0\<newline>f 1 2 3'') ! 3 = Fin (1 / 4)"
proof -
  define s where "s = ''v 0 0 0\<newline>v 1 0 0\<newline>v 0 4 0\<newline>f 1 2 3''"
  define rs :: "real list" where "rs = [0, 0, 0, 1, 0, 0, 0, 4, 0]"
  have a: "fst (parse_lines s) = map Fin rs"
    unfolding s_def rs_def by code_simp
  have b: "box_range rs = 4"
    unfolding rs_def by code_simp
  have c: "box_center 0 rs = 1 / 2" "box_center 1 rs = 2" "box_center 2 rs = 0"
    "box_center (Suc 0) rs = 2"
    unfolding rs_def by code_simp+
  have g: "fst (parse_lines s) = map Fin rs \<and>
      rs = map (\<lambda>m. real_of_int m / 2 ^ 0) [0, 0, 0, 1, 0, 0, 0, 4, 0] \<and>
      [0, 0, 0, 1, 0, 0, 0, 4, 0] \<noteq> ([] :: int list) \<and> (0 :: nat) \<le> 100 \<and>
      (\<forall>m \<in> set [0, 0, 0, 1, 0, 0, 0, 4, 0 :: int]. \<bar>m\<bar> \<le> 2 ^ 50) \<and> box_range rs \<noteq> 0"
    using a b by (simp add: rs_def)
  note ln = load_normalized [of s rs 0 "[0, 0, 0, 1, 0, 0, 0, 4, 0]"]
  have t1: "center_of (bounds (fst (parse_lines s))) = [Fin (1 / 2), Fin 2, Fin 0]"
    using ln [THEN conjunct2, THEN conjunct2, THEN mp, OF g, THEN conjunct2, THEN conjunct1]
    by (simp only: c)
  have t2: "range_of (bounds (fst (parse_lines s))) = Fin 4"
    using ln [THEN conjunct2, THEN conjunct2, THEN mp, OF g, THEN conjunct2, THEN conjunct2]
    by (simp only: b)
  have l9: "length (fst (parse_lines s)) = 9"
    by (simp add: a rs_def)
  have t3: "fst (load s) ! j =
      scaled (fst (parse_lines s) ! j) (rd [Fin (1 / 2), Fin 2, Fin 0] (j mod 3)) (Fin 4)"
    if "j < 9" for j
    using ln [THEN conjunct2, THEN conjunct1, rule_format, of j] that
    unfolding t1 t2 l9 by simp
  have "fst (load s) ! 7 = Fin 1" "fst (load s) ! 3 = Fin (1 / 4)"
    using t3 [of 7] t3 [of 3]
    by (simp_all add: a rs_def rd_def scaled_def js_div_def js_sub_def)
  then show ?thesis
    using a b t1 t2 by (simp add: s_def rs_def)
qed

section \<open>The camera\<close>

lemma eye_updateViewSpaceVectors [simp]: "eye (updateViewSpaceVectors cam) = eye cam"
  by (simp add: updateViewSpaceVectors_def Let_def)

lemma center_updateViewSpaceVectors [simp]: "center (updateViewSpaceVectors cam) = center cam"
  by (simp add: updateViewSpaceVectors_def Let_def)

lemma updateCamera_eye_center:
  "eye (updateCamera inp dt cam) =
     eye ((if pan_held inp then camera_pan inp dt else id)
          ((if rotate_held inp then camera_rotate inp dt else id)
           ((if zoom_held inp then camera_zoom inp dt else id) cam)))"
  "center (updateCamera inp dt cam) =
     center ((if pan_held inp then camera_pan inp dt else id)
          ((if rotate_held inp then camera_rotate inp dt else id)
           ((if zoom_held inp then camera_zoom inp dt else id) cam)))"
  by (simp_all add: updateCamera_def Let_def)

lemma vec3_length_scale:
  "vec3_length (vec3_scaleAndAdd (0, 0, 0) d k) = \<bar>k\<bar> * vec3_length d"
proof (cases d)
  case (fields x y z)
  have "(x * k) * (x * k) + (y * k) * (y * k) + (z * k) * (z * k) =
        (k * k) * (x * x + y * y + z * z)"
    by (simp add: algebra_simps)
  then show ?thesis
    using fields by (simp add: real_sqrt_mult)
qed

lemma vec3_length_pos: "d \<noteq> (0, 0, 0) \<Longrightarrow> 0 < vec3_length d"
proof (cases d)
  case (fields x y z)
  assume "d \<noteq> (0, 0, 0)"
  then have "x \<noteq> 0 \<or> y \<noteq> 0 \<or> z \<noteq> 0"
    using fields by simp
  then have "0 < x * x + y * y + z * z"
    by (metis add_pos_nonneg add_nonneg_pos not_real_square_gt_zero zero_le_square add_nonneg_nonneg)
  then show ?thesis
    using fields by simp
qed

lemma subtract_zero_iff: "vec3_subtract a b = (0, 0, 0) \<longleftrightarrow> a = b"
  by (cases a, cases b) simp

lemma zoom_offset:
  "vec3_subtract (vec3_scaleAndAdd c (vec3_subtract e c) k) c =
     vec3_scaleAndAdd (0, 0, 0) (vec3_subtract e c) k"
  by (cases c, cases e) simp

subsection \<open>Sums that binary64 computes exactly\<close>

lemma round_even_Ints: "y \<in> \<int> \<Longrightarrow> real_of_int (round_even y) = y"
  by (auto simp: round_even_def Let_def elim!: Ints_cases)

lemma power_int_Ints: "0 \<le> n \<Longrightarrow> (2 :: real) powi n \<in> \<int>"
  by (simp add: power_int_def)

lemma fl64_exact:
  assumes m: "x * 2 ^ k \<in> \<int>" and b: "\<bar>x\<bar> * 2 ^ k < 2 ^ 53" and k: "k \<le> 1074"
  shows "fl64 x = x"
proof (cases "x = 0")
  case True
  then show ?thesis by (simp add: fl64_def)
next
  case False
  define e where "e = max (\<lfloor>log 2 \<bar>x\<bar>\<rfloor> - 52) (- 1074)"
  have "\<bar>x\<bar> < 2 ^ 53 / 2 ^ k"
    using b by (simp add: field_simps)
  also have "\<dots> = 2 powr (53 - real k)"
    by (simp add: powr_diff powr_realpow)
  finally have "log 2 \<bar>x\<bar> < 53 - real k"
    using False by (simp add: log_less_iff)
  then have "\<lfloor>log 2 \<bar>x\<bar>\<rfloor> < 53 - int k"
    by (simp add: floor_less_iff)
  then have e: "e \<le> - int k"
    using k by (simp add: e_def)
  have "x / 2 powi e = (x * 2 ^ k) * 2 powi (- int k - e)"
    by (simp add: power_int_diff power_int_minus field_simps)
  also have "\<dots> \<in> \<int>"
  proof (rule Ints_mult)
    show "x * 2 ^ k \<in> \<int>" by (rule m)
    show "(2 :: real) powi (- int k - e) \<in> \<int>"
      using e by (intro power_int_Ints) simp
  qed
  finally have "real_of_int (round_even (x / 2 powi e)) = x / 2 powi e"
    by (rule round_even_Ints)
  then show ?thesis
    using False by (simp add: fl64_def e_def [symmetric] Let_def)
qed

lemma dyadic_iff: "dyadic k b x \<longleftrightarrow> x * 2 ^ k \<in> \<int> \<and> \<bar>x\<bar> \<le> b"
  by (auto simp: dyadic_def Ints_def intro: sym)

lemma fl64_dyadic: "dyadic 10 8192 x \<Longrightarrow> fl64 x = x"
  by (rule fl64_exact [where k = 10]) (simp_all add: dyadic_iff)



lemma pan_vector_zoom [simp]: "pan_vector inp dt (camera_zoom inp dt cam) = pan_vector inp dt cam"
  by (simp add: pan_vector_def camera_zoom_def Let_def)

section \<open>The transformation of a scene node\<close>







section \<open>Claims about the camera and the scene nodes\<close>

text \<open>
  C4, as the code has it. \<open>updateCamera\<close> tests the three modes one after the
  other, in the order zoom, rotate, pan, and applies every mode whose condition
  holds, each to the eye and center that the one before has left. With the
  secondary and the primary button held (and not the middle one), the zoom update
  is applied and then a second one: the pan update when the modifier key is held,
  the rotate update when it is not.
\<close>

theorem updateCamera_modes:
  "eye (updateCamera inp dt cam) =
     eye ((if pan_held inp then camera_pan inp dt else id)
          ((if rotate_held inp then camera_rotate inp dt else id)
           ((if zoom_held inp then camera_zoom inp dt else id) cam))) \<and>
   center (updateCamera inp dt cam) =
     center ((if pan_held inp then camera_pan inp dt else id)
          ((if rotate_held inp then camera_rotate inp dt else id)
           ((if zoom_held inp then camera_zoom inp dt else id) cam))) \<and>
   (isMouseDown inp 2 \<and> isMouseDown inp 0 \<and> \<not> isMouseDown inp 1 \<longrightarrow>
      (if isKeyDown inp '' '' then
         eye (updateCamera inp dt cam) =
           vec3_add (eye (camera_zoom inp dt cam)) (pan_vector inp dt cam) \<and>
         center (updateCamera inp dt cam) = vec3_add (center cam) (pan_vector inp dt cam)
       else
         eye (updateCamera inp dt cam) = eye (camera_rotate inp dt (camera_zoom inp dt cam)) \<and>
         center (updateCamera inp dt cam) = center cam))"
proof (intro conjI impI)
  assume h: "isMouseDown inp 2 \<and> isMouseDown inp 0 \<and> \<not> isMouseDown inp 1"
  show "if isKeyDown inp '' '' then
         eye (updateCamera inp dt cam) =
           vec3_add (eye (camera_zoom inp dt cam)) (pan_vector inp dt cam) \<and>
         center (updateCamera inp dt cam) = vec3_add (center cam) (pan_vector inp dt cam)
       else
         eye (updateCamera inp dt cam) = eye (camera_rotate inp dt (camera_zoom inp dt cam)) \<and>
         center (updateCamera inp dt cam) = center cam"
  proof (cases "isKeyDown inp '' ''")
    case True
    with h have "zoom_held inp" "\<not> rotate_held inp" "pan_held inp"
      by (simp_all add: zoom_held_def rotate_held_def pan_held_def)
    then show ?thesis
      using True by (simp add: updateCamera_eye_center camera_pan_def Let_def)
         (simp add: camera_zoom_def Let_def)
  next
    case False
    with h have "zoom_held inp" "rotate_held inp" "\<not> pan_held inp"
      by (simp_all add: zoom_held_def rotate_held_def pan_held_def)
    then show ?thesis
      using False by (simp add: updateCamera_eye_center)
         (simp add: camera_zoom_def camera_rotate_def Let_def)
  qed
qed (simp_all add: updateCamera_eye_center)

text \<open>
  Against C4 as stated: with the secondary button, the primary button and the
  modifier key held, the zoom update alone would leave the eye at \<open>(0, 0, 2)\<close> and
  the center at the origin; \<open>updateCamera\<close> pans both as well.
\<close>

theorem updateCamera_zoom_and_pan:
  "eye (camera_zoom
      \<lparr>isMouseDown = (\<lambda>n. n = 2 \<or> n = 0), isKeyDown = (\<lambda>k. k = '' ''),
       getMouseDx = 1, getMouseDy = 1\<rparr>
      (1 / 2)
      \<lparr>eye = (0, 0, 1), center = (0, 0, 0), forward = (0, 0, 1),
       right = (1, 0, 0), up = (0, 1, 0)\<rparr>) = (0, 0, 2) \<and>
   center (camera_zoom
      \<lparr>isMouseDown = (\<lambda>n. n = 2 \<or> n = 0), isKeyDown = (\<lambda>k. k = '' ''),
       getMouseDx = 1, getMouseDy = 1\<rparr>
      (1 / 2)
      \<lparr>eye = (0, 0, 1), center = (0, 0, 0), forward = (0, 0, 1),
       right = (1, 0, 0), up = (0, 1, 0)\<rparr>) = (0, 0, 0) \<and>
   eye (updateCamera
      \<lparr>isMouseDown = (\<lambda>n. n = 2 \<or> n = 0), isKeyDown = (\<lambda>k. k = '' ''),
       getMouseDx = 1, getMouseDy = 1\<rparr>
      (1 / 2)
      \<lparr>eye = (0, 0, 1), center = (0, 0, 0), forward = (0, 0, 1),
       right = (1, 0, 0), up = (0, 1, 0)\<rparr>) = (- 1, 1, 2) \<and>
   center (updateCamera
      \<lparr>isMouseDown = (\<lambda>n. n = 2 \<or> n = 0), isKeyDown = (\<lambda>k. k = '' ''),
       getMouseDx = 1, getMouseDy = 1\<rparr>
      (1 / 2)
      \<lparr>eye = (0, 0, 1), center = (0, 0, 0), forward = (0, 0, 1),
       right = (1, 0, 0), up = (0, 1, 0)\<rparr>) = (- 1, 1, 0)"
  by (simp add: updateCamera_eye_center zoom_held_def rotate_held_def pan_held_def
      camera_zoom_def camera_pan_def pan_vector_def vec3_create_def Let_def
      fl64_dyadic dyadic_iff)

theorem updateCamera_modes_witness:
  "eye (updateCamera
      \<lparr>isMouseDown = (\<lambda>n. n = 2 \<or> n = 0), isKeyDown = (\<lambda>k. k = '' ''),
       getMouseDx = 2, getMouseDy = - 1\<rparr>
      (1 / 4)
      \<lparr>eye = (0, 0, 4), center = (0, 0, 0), forward = (0, 0, 1),
       right = (1, 0, 0), up = (0, 1, 0)\<rparr>) = (- 1, - (1 / 2), 2) \<and>
   center (updateCamera
      \<lparr>isMouseDown = (\<lambda>n. n = 2 \<or> n = 0), isKeyDown = (\<lambda>k. k = '' ''),
       getMouseDx = 2, getMouseDy = - 1\<rparr>
      (1 / 4)
      \<lparr>eye = (0, 0, 4), center = (0, 0, 0), forward = (0, 0, 1),
       right = (1, 0, 0), up = (0, 1, 0)\<rparr>) = (- 1, - (1 / 2), 0)"
proof -
  define inp where "inp =
    \<lparr>isMouseDown = (\<lambda>n. n = 2 \<or> n = 0), isKeyDown = (\<lambda>k. k = '' ''),
     getMouseDx = 2, getMouseDy = - 1\<rparr>"
  define cam where "cam =
    \<lparr>eye = (0, 0, 4), center = (0, 0, 0), forward = (0, 0, 1),
     right = (1, 0, 0), up = (0, 1, 0)\<rparr>"
  have h: "isMouseDown inp 2 \<and> isMouseDown inp 0 \<and> \<not> isMouseDown inp 1"
    by (simp add: inp_def)
  have k: "isKeyDown inp '' ''"
    by (simp add: inp_def)
  have "eye (updateCamera inp (1 / 4) cam) =
      vec3_add (eye (camera_zoom inp (1 / 4) cam)) (pan_vector inp (1 / 4) cam) \<and>
    center (updateCamera inp (1 / 4) cam) = vec3_add (center cam) (pan_vector inp (1 / 4) cam)"
    using updateCamera_modes [of inp "1 / 4" cam, THEN conjunct2, THEN conjunct2, rule_format, OF h]
      k by (simp only: if_True)
  then have "eye (updateCamera inp (1 / 4) cam) = (- 1, - (1 / 2), 2) \<and>
    center (updateCamera inp (1 / 4) cam) = (- 1, - (1 / 2), 0)"
    by (simp add: inp_def cam_def camera_zoom_def pan_vector_def vec3_create_def Let_def
        fl64_dyadic dyadic_iff)
  then show ?thesis
    by (simp add: inp_def cam_def)
qed

text \<open>
  C8, as the code has it. On a frame with only the secondary button held,
  \<open>updateCamera\<close> leaves the center unchanged and replaces the eye by
  \<open>center + (eye - center) * (1 + dy * zoomSpeed)\<close>, with \<open>zoomSpeed = 2 * delta_time\<close>.
  When \<open>dy\<close> and \<open>delta_time\<close> lie between 1/1024 and 1024, the coordinates of the
  eye and of the center are multiples of 1/1024 of magnitude at most 1024, and the
  eye is not at the center, the factor is greater than 1, every coordinate of the
  new offset of the eye from the center lies on the same side as the old one and
  farther out (a coordinate 0 stays 0), and the new eye is strictly farther from
  the center.
\<close>

theorem updateCamera_zoom:
  assumes "isMouseDown inp 2" and "\<not> isMouseDown inp 0" and "\<not> isMouseDown inp 1"
  shows "center (updateCamera inp dt cam) = center cam \<and>
    eye (updateCamera inp dt cam) =
      vec3_scaleAndAdd (center cam) (vec3_subtract (eye cam) (center cam))
        (1 + getMouseDy inp * (2 * dt)) \<and>
    (1 / 1024 \<le> getMouseDy inp \<and> getMouseDy inp \<le> 1024 \<and> 1 / 1024 \<le> dt \<and> dt \<le> 1024 \<and>
     dyadic3 10 1024 (eye cam) \<and> dyadic3 10 1024 (center cam) \<and> eye cam \<noteq> center cam \<longrightarrow>
       1 < 1 + getMouseDy inp * (2 * dt) \<and>
       farther3 (vec3_subtract (eye cam) (center cam))
         (vec3_subtract (eye (updateCamera inp dt cam)) (center (updateCamera inp dt cam))) \<and>
       vec3_length (vec3_subtract (eye cam) (center cam)) <
         vec3_length
           (vec3_subtract (eye (updateCamera inp dt cam)) (center (updateCamera inp dt cam))))"
proof -
  define k where "k = 1 + getMouseDy inp * (2 * dt)"
  define d where "d = vec3_subtract (eye cam) (center cam)"
  have modes: "zoom_held inp" "\<not> rotate_held inp" "\<not> pan_held inp"
    using assms by (simp_all add: zoom_held_def rotate_held_def pan_held_def)
  have c: "center (updateCamera inp dt cam) = center cam"
    using modes by (simp add: updateCamera_eye_center camera_zoom_def Let_def)
  have e: "eye (updateCamera inp dt cam) = vec3_scaleAndAdd (center cam) d k"
    using modes by (simp add: updateCamera_eye_center camera_zoom_def Let_def k_def d_def)
  have off: "vec3_subtract (eye (updateCamera inp dt cam)) (center (updateCamera inp dt cam)) =
      vec3_scaleAndAdd (0, 0, 0) d k"
    unfolding c e d_def by (rule zoom_offset)
  have k1: "1 < k" if "1 / 1024 \<le> getMouseDy inp" "1 / 1024 \<le> dt"
  proof -
    have "0 < getMouseDy inp * (2 * dt)"
      using that by (intro mult_pos_pos) simp_all
    then show ?thesis
      by (simp add: k_def)
  qed
  have side: "farther3 d (vec3_scaleAndAdd (0, 0, 0) d k)" if "1 < k"
  proof (cases d)
    case (fields x y z)
    have "farther a (a * k)" for a
    proof -
      consider "a = 0" | "0 < a" | "a < 0"
        by linarith
      then show ?thesis
      proof cases
        case 1
        then show ?thesis by (simp add: farther_def)
      next
        case 2
        then have "a * 1 < a * k"
          using that by (intro mult_strict_left_mono)
        then show ?thesis
          using 2 by (simp add: farther_def)
      next
        case 3
        then have "a * k < a * 1"
          using that by (intro mult_strict_left_mono_neg)
        then show ?thesis
          using 3 by (simp add: farther_def)
      qed
    qed
    then show ?thesis
      using fields by simp
  qed
  have far: "vec3_length d < vec3_length (vec3_scaleAndAdd (0, 0, 0) d k)"
    if "1 < k" "eye cam \<noteq> center cam"
  proof -
    have "0 < vec3_length d"
      using that(2) by (intro vec3_length_pos) (simp add: d_def subtract_zero_iff)
    then have "1 * vec3_length d < k * vec3_length d"
      using that(1) by (intro mult_strict_right_mono)
    then show ?thesis
      using that(1) by (simp add: vec3_length_scale)
  qed
  show ?thesis
    using c e k1 side far unfolding off by (simp add: k_def d_def)
qed

text \<open>
  Against C8 as stated: from the camera of the constructor, a frame with the
  secondary button held, \<open>dy = -1\<close> and \<open>delta_time = 0.5\<close> scales the offset by 0
  and leaves the eye at the center; on the next frame, with \<open>dy = 1\<close>, the eye
  does not move and is not farther from the center.
\<close>

theorem updateCamera_zoom_at_center:
  "eye (updateCamera (secondary_drag (- 1)) (1 / 2) initial_camera) = (0, 0, 0) \<and>
   center (updateCamera (secondary_drag (- 1)) (1 / 2) initial_camera) = (0, 0, 0) \<and>
   \<not> vec3_length
        (vec3_subtract
           (eye (updateCamera (secondary_drag (- 1)) (1 / 2) initial_camera))
           (center (updateCamera (secondary_drag (- 1)) (1 / 2) initial_camera))) <
      vec3_length
        (vec3_subtract
           (eye (updateCamera (secondary_drag 1) (1 / 2)
                  (updateCamera (secondary_drag (- 1)) (1 / 2) initial_camera)))
           (center (updateCamera (secondary_drag 1) (1 / 2)
                  (updateCamera (secondary_drag (- 1)) (1 / 2) initial_camera))))"
  by (simp add: updateCamera_eye_center zoom_held_def rotate_held_def pan_held_def
      camera_zoom_def secondary_drag_def initial_camera_def Let_def)

theorem updateCamera_zoom_witness:
  "center (updateCamera (secondary_drag 1) (1 / 2) initial_camera) = (0, 0, 0) \<and>
   eye (updateCamera (secondary_drag 1) (1 / 2) initial_camera) = (4, 1, - 4) \<and>
   farther3 (2, 1 / 2, - 2)
     (vec3_subtract
        (eye (updateCamera (secondary_drag 1) (1 / 2) initial_camera))
        (center (updateCamera (secondary_drag 1) (1 / 2) initial_camera))) \<and>
   vec3_length (vec3_subtract (2, 1 / 2, - 2) (0, 0, 0)) <
     vec3_length
       (vec3_subtract
          (eye (updateCamera (secondary_drag 1) (1 / 2) initial_camera))
          (center (updateCamera (secondary_drag 1) (1 / 2) initial_camera)))"
proof -
  have h: "isMouseDown (secondary_drag 1) 2" "\<not> isMouseDown (secondary_drag 1) 0"
    "\<not> isMouseDown (secondary_drag 1) 1"
    by (simp_all add: secondary_drag_def)
  have e: "eye initial_camera = (2, 1 / 2, - 2)" and c: "center initial_camera = (0, 0, 0)"
    by (simp_all add: initial_camera_def)
  have dy: "getMouseDy (secondary_drag 1) = 1"
    by (simp add: secondary_drag_def)
  have g: "1 / 1024 \<le> getMouseDy (secondary_drag 1) \<and> getMouseDy (secondary_drag 1) \<le> 1024 \<and>
      1 / 1024 \<le> (1 / 2 :: real) \<and> (1 / 2 :: real) \<le> 1024 \<and>
      dyadic3 10 1024 (eye initial_camera) \<and> dyadic3 10 1024 (center initial_camera) \<and>
      eye initial_camera \<noteq> center initial_camera"
    by (simp add: dy e c dyadic_iff)
  note z = updateCamera_zoom [OF h, of "1 / 2" initial_camera]
  have 1: "center (updateCamera (secondary_drag 1) (1 / 2) initial_camera) = (0, 0, 0)"
    using z [THEN conjunct1] by (simp only: c)
  have 2: "eye (updateCamera (secondary_drag 1) (1 / 2) initial_camera) = (4, 1, - 4)"
    using z [THEN conjunct2, THEN conjunct1] by (simp add: e c dy)
  have 3: "farther3 (vec3_subtract (eye initial_camera) (center initial_camera))
         (vec3_subtract (eye (updateCamera (secondary_drag 1) (1 / 2) initial_camera))
            (center (updateCamera (secondary_drag 1) (1 / 2) initial_camera))) \<and>
       vec3_length (vec3_subtract (eye initial_camera) (center initial_camera)) <
         vec3_length
           (vec3_subtract (eye (updateCamera (secondary_drag 1) (1 / 2) initial_camera))
              (center (updateCamera (secondary_drag 1) (1 / 2) initial_camera)))"
    using z [THEN conjunct2, THEN conjunct2, THEN mp, OF g, THEN conjunct2] .
  have s: "vec3_subtract (eye initial_camera) (center initial_camera) = (2, 1 / 2, - 2)"
    by (simp add: e c)
  show ?thesis
    using 1 2 3 unfolding s by (simp only: e c vec3_subtract.simps diff_zero simp_thms)
qed






end
